theory Spec2Isabelle
  imports Main
begin

section \<open>The dataset validator \<^verbatim>\<open>scripts/db/validate.js\<close>\<close>

text \<open>
  The script loads the seven table files of the dataset (Phase 1: format checks,
  parsing, indexing by key) and then validates the requested files (Phase 2: duplicate
  ids, references into the other tables, schema rules), collecting the errors of every
  file. A format failure ends the process at once with status 1 (\<^verbatim>\<open>handleError\<close>).

  JavaScript strings are modelled as \<^typ>\<open>string\<close>; a \<^typ>\<open>char\<close> stands for
  a code unit below 256 (ASCII and Latin-1).
\<close>

subsection \<open>String operations of the JavaScript runtime\<close>

text \<open>\<^verbatim>\<open>String.prototype.toLowerCase\<close> on code units below 256: the letters A-Z and the
  Latin-1 capitals 0xC0-0xDE (0xD7, the multiplication sign, apart) move up by 32.\<close>

definition toLowerChar :: "char \<Rightarrow> char" where
  "toLowerChar c =
     (let n = (of_char c :: nat)
      in if (65 \<le> n \<and> n \<le> 90) \<or> (192 \<le> n \<and> n \<le> 222 \<and> n \<noteq> 215)
         then char_of (n + 32) else c)"

definition toLowerCase :: "string \<Rightarrow> string" where
  "toLowerCase s = map toLowerChar s"

text \<open>The class \<^verbatim>\<open>\s\<close> of a regular expression, on code units below 256: tab, line
  feed, vertical tab, form feed, carriage return, space and the no-break space.\<close>

definition is_space :: "char \<Rightarrow> bool" where
  "is_space c = ((of_char c :: nat) \<in> {9, 10, 11, 12, 13, 32, 160})"

text \<open>\<^verbatim>\<open>/\s+$/.test(s)\<close>: without the flag \<^verbatim>\<open>m\<close> the anchor is the end of the
  input, so the test holds when the text ends in a white-space character.\<close>

definition ends_in_space :: "string \<Rightarrow> bool" where
  "ends_in_space s = (case rev s of [] \<Rightarrow> False | c # _ \<Rightarrow> is_space c)"

text \<open>\<^verbatim>\<open>s.split(d)\<close> for a one-character separator; the first argument collects the
  current piece in reverse.\<close>

fun split_char :: "char \<Rightarrow> string \<Rightarrow> string \<Rightarrow> string list" where
  "split_char d cur [] = [rev cur]"
| "split_char d cur (c # cs) =
     (if c = d then rev cur # split_char d [] cs else split_char d (c # cur) cs)"

text \<open>\<^verbatim>\<open>s.split('\r\n')\<close>.\<close>

fun split_crlf :: "string \<Rightarrow> string \<Rightarrow> string list" where
  "split_crlf cur [] = [rev cur]"
| "split_crlf cur [c] = [rev (c # cur)]"
| "split_crlf cur (c # d # cs) =
     (if c = CHR 0x0D \<and> d = CHR 0x0A then rev cur # split_crlf [] cs
      else split_crlf (c # cur) (d # cs))"

text \<open>\<^verbatim>\<open>line.split(/,(?=(?:(?:[^"]*"){2})*[^"]*$)/)\<close>: a comma separates two pieces when
  the look-ahead succeeds, that is when the rest of the line after the comma holds an
  even number of double quotes.\<close>

definition quotes :: "string \<Rightarrow> nat" where
  "quotes s = count_list s (CHR 0x22)"

fun split_unquoted :: "string \<Rightarrow> string \<Rightarrow> string list" where
  "split_unquoted cur [] = [rev cur]"
| "split_unquoted cur (c # cs) =
     (if c = CHR '','' \<and> even (quotes cs) then rev cur # split_unquoted [] cs
      else split_unquoted (c # cur) cs)"

text \<open>\<^verbatim>\<open>s.endsWith(suffix)\<close>.\<close>

definition endsWith :: "string \<Rightarrow> string \<Rightarrow> bool" where
  "endsWith s suf =
     (length suf \<le> length s \<and> drop (length s - length suf) s = suf)"

text \<open>Decimal digits of a number, as a template literal prints it.\<close>

fun decimal :: "nat \<Rightarrow> string" where
  "decimal n =
     (if n < 10 then [char_of (48 + n)] else decimal (n div 10) @ [char_of (48 + n mod 10)])"

declare decimal.simps [simp del]

subsection \<open>Rows, errors and the loaded tables\<close>

text \<open>A row as the CSV parser returns it, with the columns the validator reads: scalar
  columns are strings, list columns are lists of strings, and the two optional columns
  are \<open>None\<close> when the parser yields \<^verbatim>\<open>null\<close>. A table's rows leave the columns of
  other tables unused.\<close>

record row =
  row_id :: string
  channel :: string
  code :: string
  country :: string
  lang :: string
  subdivision :: "string option"
  replaced_by :: "string option"
  categories :: "string list"
  languages :: "string list"
  broadcast_area :: "string list"
  countries :: "string list"

text \<open>\<^verbatim>\<open>{ line, message }\<close>.\<close>

record verror =
  line :: nat
  message :: string

text \<open>An index \<^verbatim>\<open>_.keyBy(data, key)\<close> maps a key to a row object; the row objects are
  those of the table's array, so the model stores the position of the row in the array.
  The globals \<^verbatim>\<open>db\<close> and \<^verbatim>\<open>files\<close> map a table name to its index and to its rows.\<close>

type_synonym index = "string \<rightharpoonup> nat"

record state =
  db :: "string \<rightharpoonup> index"
  files :: "string \<rightharpoonup> row list"

definition init :: state where
  "init = \<lparr>db = Map.empty, files = Map.empty\<rparr>"

text \<open>The ways the run ends in \<^verbatim>\<open>handleError\<close>, and the message each one prints.\<close>

datatype fatal =
    WrongEol string
  | TrailingBlank string
  | WrongColumns nat string
  | ParseError string string
  | SchemeMissing string
  | ErrorCount nat

fun fatal_message :: "fatal \<Rightarrow> string" where
  "fatal_message (WrongEol p) =
     ''Error: file must have line endings with CRLF ('' @ p @ '')''"
| "fatal_message (TrailingBlank p) =
     ''Error: empty lines at the end of file not allowed ('' @ p @ '')''"
| "fatal_message (WrongColumns n p) =
     ''Error: row '' @ decimal n @ '' has the wrong number of columns ('' @ p @ '')''"
| "fatal_message (ParseError m p) = m @ '' ('' @ p @ '')''"
| "fatal_message (SchemeMissing n) =
     ''Error: '' @ [CHR 0x22] @ n @ [CHR 0x22] @ '' scheme is missing''"
| "fatal_message (ErrorCount n) = decimal n @ '' error(s)''"

text \<open>What the collaborators of the absent \<^verbatim>\<open>core\<close> module return for one path: the
  line-ending style \<^verbatim>\<open>file.eol\<close> detects, the text \<^verbatim>\<open>file.read\<close> returns, and the
  outcome of \<^verbatim>\<open>csv.fromString\<close> (a rejection with its message, or the rows).\<close>

record file_input =
  eol :: string
  content :: string
  parsed :: "string + row list"

subsection \<open>Phase 1: loading and indexing every table\<close>

definition allFiles :: "string list" where
  "allFiles =
     [''data/blocklist.csv'', ''data/categories.csv'', ''data/channels.csv'',
      ''data/countries.csv'', ''data/languages.csv'', ''data/regions.csv'',
      ''data/subdivisions.csv'']"

text \<open>Modelled from the spec: \<^verbatim>\<open>file.getFilename\<close> of the absent \<^verbatim>\<open>core\<close> module;
  the table name of a path is its last component without the extension.\<close>

definition strip_ext :: "string \<Rightarrow> string" where
  "strip_ext b =
     (case dropWhile (\<lambda>c. c \<noteq> CHR ''.'') (rev b) of
        [] \<Rightarrow> b
      | _ # stem \<Rightarrow> if stem = [] then b else rev stem)"

definition getFilename :: "string \<Rightarrow> string" where
  "getFilename p = strip_ext (last (split_char (CHR ''/'') [] p))"

text \<open>The column-count loop: the first line, counted from 0, whose quote-aware split
  does not have \<open>n\<close> pieces.\<close>

fun first_bad_row :: "nat \<Rightarrow> nat \<Rightarrow> string list \<Rightarrow> nat option" where
  "first_bad_row n i [] = None"
| "first_bad_row n i (l # ls) =
     (if length (split_unquoted [] l) \<noteq> n then Some i else first_bad_row n (Suc i) ls)"

text \<open>The header is split on every comma (\<^verbatim>\<open>rows[0].split(',')\<close>); \<open>split_crlf\<close>
  never returns the empty list, so \<^verbatim>\<open>rows[0]\<close> exists.\<close>

definition check_columns :: "string \<Rightarrow> nat option" where
  "check_columns csvString =
     (let rows = split_crlf [] csvString;
          headers = split_char (CHR '','') [] (hd rows)
      in first_bad_row (length headers) 0 rows)"

text \<open>The body of the loading loop up to the parsed rows, for one path.\<close>

definition load_file :: "string \<Rightarrow> file_input \<Rightarrow> fatal + row list" where
  "load_file filepath f =
     (if eol f \<noteq> ''CRLF'' then Inl (WrongEol filepath)
      else if ends_in_space (content f) then Inl (TrailingBlank filepath)
      else case check_columns (content f) of
             Some i \<Rightarrow> Inl (WrongColumns (i + 1) filepath)
           | None \<Rightarrow>
               (case parsed f of
                  Inl msg \<Rightarrow> Inl (ParseError msg filepath)
                | Inr data \<Rightarrow> Inr data))"

text \<open>\<^verbatim>\<open>_.keyBy(data, key)\<close>: the rows are entered in order, so a later row replaces an
  earlier one with the same key.\<close>

fun keyBy_from :: "nat \<Rightarrow> (row \<Rightarrow> string) \<Rightarrow> row list \<Rightarrow> index \<Rightarrow> index" where
  "keyBy_from i key [] m = m"
| "keyBy_from i key (r # rs) m = keyBy_from (Suc i) key rs (m(key r \<mapsto> i))"

definition keyBy :: "row list \<Rightarrow> (row \<Rightarrow> string) \<Rightarrow> index" where
  "keyBy data key = keyBy_from 0 key data Map.empty"

text \<open>The \<^verbatim>\<open>switch (filename)\<close> that chooses the key column.\<close>

definition key_field :: "string \<Rightarrow> row \<Rightarrow> string" where
  "key_field filename =
     (if filename = ''blocklist'' then channel
      else if filename = ''categories'' \<or> filename = ''channels'' then row_id
      else code)"

fun load_all :: "(string \<Rightarrow> file_input) \<Rightarrow> string list \<Rightarrow> state \<Rightarrow> fatal + state" where
  "load_all fs [] st = Inr st"
| "load_all fs (filepath # rest) st =
     (if \<not> endsWith filepath ''.csv'' then load_all fs rest st
      else case load_file filepath (fs filepath) of
             Inl e \<Rightarrow> Inl e
           | Inr data \<Rightarrow>
               (let filename = getFilename filepath;
                    grouped = keyBy data (key_field filename)
                in load_all fs rest
                     (st\<lparr>db := (db st)(filename \<mapsto> grouped),
                         files := (files st)(filename \<mapsto> data)\<rparr>)))"

subsection \<open>Phase 2: the validators\<close>

text \<open>The names every JavaScript object inherits from \<^verbatim>\<open>Object.prototype\<close>; each is
  bound to a function or an object, so a look-up of one of them is truthy.\<close>

definition object_prototype :: "string list" where
  "object_prototype =
     [''constructor'', ''hasOwnProperty'', ''isPrototypeOf'', ''propertyIsEnumerable'',
      ''toLocaleString'', ''toString'', ''valueOf'', ''__proto__'',
      ''__defineGetter__'', ''__defineSetter__'', ''__lookupGetter__'',
      ''__lookupSetter__'']"

text \<open>The truth value of \<^verbatim>\<open>db[table][key]\<close>: the key is a key of the index (its value is
  a row object) or an inherited name. Phase 1 assigns \<^verbatim>\<open>db[table]\<close> for every table
  before Phase 2 starts (lemma \<open>phase2_tables_defined\<close> below).\<close>

definition found :: "state \<Rightarrow> string \<Rightarrow> string \<Rightarrow> bool" where
  "found st table k =
     (case db st table of
        None \<Rightarrow> False
      | Some idx \<Rightarrow> idx k \<noteq> None \<or> k \<in> set object_prototype)"

text \<open>The truth value of an optional column, and its text in a template literal.\<close>

definition truthy :: "string option \<Rightarrow> bool" where
  "truthy v = (case v of None \<Rightarrow> False | Some s \<Rightarrow> s \<noteq> [])"

definition text_of :: "string option \<Rightarrow> string" where
  "text_of v = (case v of None \<Rightarrow> ''null'' | Some s \<Rightarrow> s)"

text \<open>The message \<^verbatim>\<open>"${who}" has the wrong ${what} "${value}"\<close>.\<close>

definition wrong :: "string \<Rightarrow> string \<Rightarrow> string \<Rightarrow> string" where
  "wrong who what v =
     [CHR 0x22] @ who @ [CHR 0x22] @ '' has the wrong '' @ what @ '' '' @
     [CHR 0x22] @ v @ [CHR 0x22]"

definition validateChannelCategories :: "state \<Rightarrow> row \<Rightarrow> nat \<Rightarrow> verror list" where
  "validateChannelCategories st row i =
     fold (\<lambda>category errors.
             if \<not> found st ''categories'' category
             then errors @ [\<lparr>line = i + 2, message = wrong (row_id row) ''category'' category\<rparr>]
             else errors)
          (categories row) []"

definition validateChannelCountry :: "state \<Rightarrow> row \<Rightarrow> nat \<Rightarrow> verror list" where
  "validateChannelCountry st row i =
     (if \<not> found st ''countries'' (country row)
      then [\<lparr>line = i + 2, message = wrong (row_id row) ''country'' (country row)\<rparr>]
      else [])"

definition validateChannelReplacedBy :: "state \<Rightarrow> row \<Rightarrow> nat \<Rightarrow> verror list" where
  "validateChannelReplacedBy st row i =
     (if truthy (replaced_by row) \<and> \<not> found st ''channels'' (text_of (replaced_by row))
      then [\<lparr>line = i + 2,
             message = wrong (row_id row) ''replaced_by'' (text_of (replaced_by row))\<rparr>]
      else [])"

definition validateChannelSubdivision :: "state \<Rightarrow> row \<Rightarrow> nat \<Rightarrow> verror list" where
  "validateChannelSubdivision st row i =
     (if truthy (subdivision row) \<and> \<not> found st ''subdivisions'' (text_of (subdivision row))
      then [\<lparr>line = i + 2,
             message = wrong (row_id row) ''subdivision'' (text_of (subdivision row))\<rparr>]
      else [])"

text \<open>\<^verbatim>\<open>const [type, code] = area.split('/')\<close>: the first two pieces; a missing second
  piece is \<^verbatim>\<open>undefined\<close>, which as a property key reads \<^verbatim>\<open>"undefined"\<close>.\<close>

definition area_type :: "string \<Rightarrow> string" where
  "area_type area = (case split_char (CHR ''/'') [] area of [] \<Rightarrow> ''undefined'' | t # _ \<Rightarrow> t)"

definition area_code :: "string \<Rightarrow> string" where
  "area_code area =
     (case split_char (CHR ''/'') [] area of t # c # _ \<Rightarrow> c | _ \<Rightarrow> ''undefined'')"

definition validateChannelBroadcastArea :: "state \<Rightarrow> row \<Rightarrow> nat \<Rightarrow> verror list" where
  "validateChannelBroadcastArea st row i =
     fold (\<lambda>area errors.
             if (area_type area = ''r'' \<and> \<not> found st ''regions'' (area_code area)) \<or>
                (area_type area = ''c'' \<and> \<not> found st ''countries'' (area_code area)) \<or>
                (area_type area = ''s'' \<and> \<not> found st ''subdivisions'' (area_code area))
             then errors @ [\<lparr>line = i + 2, message = wrong (row_id row) ''broadcast_area'' area\<rparr>]
             else errors)
          (broadcast_area row) []"

definition validateChannelLanguages :: "state \<Rightarrow> row \<Rightarrow> nat \<Rightarrow> verror list" where
  "validateChannelLanguages st row i =
     fold (\<lambda>language errors.
             if \<not> found st ''languages'' language
             then errors @ [\<lparr>line = i + 2, message = wrong (row_id row) ''language'' language\<rparr>]
             else errors)
          (languages row) []"

definition validateChannelId :: "state \<Rightarrow> row \<Rightarrow> nat \<Rightarrow> verror list" where
  "validateChannelId st row i =
     (if \<not> found st ''channels'' (channel row)
      then [\<lparr>line = i + 2,
             message = [CHR 0x22] @ channel row @ [CHR 0x22] @ '' is missing in the channels.csv''\<rparr>]
      else [])"

definition validateCountryLanguage :: "state \<Rightarrow> row \<Rightarrow> nat \<Rightarrow> verror list" where
  "validateCountryLanguage st row i =
     (if \<not> found st ''languages'' (lang row)
      then [\<lparr>line = i + 2, message = wrong (code row) ''language'' (lang row)\<rparr>]
      else [])"

definition validateSubdivisionCountry :: "state \<Rightarrow> row \<Rightarrow> nat \<Rightarrow> verror list" where
  "validateSubdivisionCountry st row i =
     (if \<not> found st ''countries'' (country row)
      then [\<lparr>line = i + 2, message = wrong (code row) ''country'' (country row)\<rparr>]
      else [])"

definition validateRegionCountries :: "state \<Rightarrow> row \<Rightarrow> nat \<Rightarrow> verror list" where
  "validateRegionCountries st row i =
     fold (\<lambda>c errors.
             if \<not> found st ''countries'' c
             then errors @ [\<lparr>line = i + 2, message = wrong (code row) ''country'' c\<rparr>]
             else errors)
          (countries row) []"

subsection \<open>The duplicate detector\<close>

text \<open>The rule \<^verbatim>\<open>Joi.array().unique(comparator)\<close> of the Joi library: it walks the array
  from the left, keeps the items seen so far, and at the first item that the comparator
  equates with an earlier one it returns its error, whose context holds the position
  \<^verbatim>\<open>pos\<close> and the item \<^verbatim>\<open>value\<close>. A rule returns once, so the option
  \<^verbatim>\<open>abortEarly: false\<close>, which lets the other rules of a schema run after a failed one,
  adds no further detail: \<^verbatim>\<open>error.details\<close> has at most one entry.\<close>

fun unique_from :: "(row \<Rightarrow> row \<Rightarrow> bool) \<Rightarrow> row list \<Rightarrow> nat \<Rightarrow> row list \<Rightarrow> (nat \<times> row) list" where
  "unique_from comparator records i [] = []"
| "unique_from comparator records i (item # rest) =
     (if list_ex (\<lambda>r. comparator r item) records then [(i, item)]
      else unique_from comparator (records @ [item]) (Suc i) rest)"

definition array_unique :: "(row \<Rightarrow> row \<Rightarrow> bool) \<Rightarrow> row list \<Rightarrow> (nat \<times> row) list" where
  "array_unique comparator rows = unique_from comparator [] 0 rows"

text \<open>\<^verbatim>\<open>findDuplicatesById\<close> assigns the lower-cased id to every row object, so it returns
  the rows as they are afterwards together with its errors.\<close>

definition findDuplicatesById :: "row list \<Rightarrow> row list \<times> verror list" where
  "findDuplicatesById rows =
     (let rows' = map (\<lambda>row. row\<lparr>row_id := toLowerCase (row_id row)\<rparr>) rows;
          details = array_unique (\<lambda>a b. row_id a = row_id b) rows'
      in (rows',
          fold (\<lambda>(pos, v) errors.
                  errors @ [\<lparr>line = pos + 2,
                             message = ''entry with the id '' @ [CHR 0x22] @ row_id v @
                                       [CHR 0x22] @ '' already exists''\<rparr>])
               details []))"

subsection \<open>Phase 2: the files to check\<close>

text \<open>Modelled from the spec: the \<^verbatim>\<open>schemes\<close> module is absent; it has a rule set for
  each recognized table name, and the entry for any other name is missing. What
  \<^verbatim>\<open>Joi.object(schemes[filename]).validate(row, { abortEarly: false })\<close> reports is a
  parameter \<open>schema\<close>: the messages of the details, in order, for a table and a row.\<close>

definition table_names :: "string list" where
  "table_names =
     [''blocklist'', ''categories'', ''channels'', ''countries'', ''languages'',
      ''regions'', ''subdivisions'']"

definition has_scheme :: "string \<Rightarrow> bool" where
  "has_scheme filename = (filename \<in> set table_names)"

text \<open>\<^verbatim>\<open>for (const [i, row] of rows.entries()) fileErrors = fileErrors.concat(body(row, i))\<close>.\<close>

fun rows_loop :: "(row \<Rightarrow> nat \<Rightarrow> verror list) \<Rightarrow> nat \<Rightarrow> row list \<Rightarrow> verror list \<Rightarrow> verror list" where
  "rows_loop body i [] fileErrors = fileErrors"
| "rows_loop body i (row # rows) fileErrors =
     rows_loop body (Suc i) rows (fileErrors @ body row i)"

text \<open>The body of the loop over the files to check, from \<^verbatim>\<open>const rows = files[filename]\<close>
  to the schema pass: the new state and \<^verbatim>\<open>fileErrors\<close>. Phase 1 has assigned
  \<^verbatim>\<open>files[filename]\<close> for every name with a scheme (lemma \<open>phase2_tables_defined\<close>).\<close>

definition validate_file :: "(string \<Rightarrow> row \<Rightarrow> string list) \<Rightarrow> string \<Rightarrow> state \<Rightarrow> state \<times> verror list" where
  "validate_file schema filename st =
     (case files st filename of
        None \<Rightarrow> (st, [])
      | Some rows \<Rightarrow>
          (let (st', rows', fileErrors) =
                 (if filename = ''channels'' then
                    (let (lowered, dups) = findDuplicatesById rows;
                         st1 = st\<lparr>files := (files st)(filename \<mapsto> lowered)\<rparr>
                     in (st1, lowered,
                         rows_loop (\<lambda>row i.
                              validateChannelBroadcastArea st1 row i @
                              validateChannelSubdivision st1 row i @
                              validateChannelCategories st1 row i @
                              validateChannelReplacedBy st1 row i @
                              validateChannelLanguages st1 row i @
                              validateChannelCountry st1 row i) 0 lowered dups))
                  else if filename = ''blocklist'' then
                    (st, rows, rows_loop (validateChannelId st) 0 rows [])
                  else if filename = ''countries'' then
                    (st, rows, rows_loop (validateCountryLanguage st) 0 rows [])
                  else if filename = ''subdivisions'' then
                    (st, rows, rows_loop (validateSubdivisionCountry st) 0 rows [])
                  else if filename = ''regions'' then
                    (st, rows, rows_loop (validateRegionCountries st) 0 rows [])
                  else (st, rows, []))
           in (st',
               rows_loop (\<lambda>row i. map (\<lambda>m. \<lparr>line = i + 2, message = m\<rparr>) (schema filename row))
                 0 rows' fileErrors)))"

text \<open>What a run leaves behind: the per-file reports printed so far (a path with its
  errors), and the fatal error \<^verbatim>\<open>handleError\<close> was called with, if any.\<close>

record outcome =
  reports :: "(string \<times> verror list) list"
  fatal :: "fatal option"

text \<open>\<^verbatim>\<open>process.exit(1)\<close> in \<^verbatim>\<open>handleError\<close>; a run that returns from \<^verbatim>\<open>main\<close>
  ends with status 0.\<close>

definition exit_status :: "outcome \<Rightarrow> nat" where
  "exit_status out = (case fatal out of None \<Rightarrow> 0 | Some _ \<Rightarrow> 1)"

fun validate_all :: "(string \<Rightarrow> row \<Rightarrow> string list) \<Rightarrow> string list \<Rightarrow> state \<Rightarrow>
    (string \<times> verror list) list \<Rightarrow> verror list \<Rightarrow> outcome" where
  "validate_all schema [] st printed globalErrors =
     \<lparr>reports = printed,
      fatal = (if globalErrors \<noteq> [] then Some (ErrorCount (length globalErrors)) else None)\<rparr>"
| "validate_all schema (filepath # rest) st printed globalErrors =
     (let filename = getFilename filepath
      in if \<not> has_scheme filename
         then \<lparr>reports = printed, fatal = Some (SchemeMissing filename)\<rparr>
         else (let (st', fileErrors) = validate_file schema filename st
               in if fileErrors \<noteq> []
                  then validate_all schema rest st' (printed @ [(filepath, fileErrors)])
                         (globalErrors @ fileErrors)
                  else validate_all schema rest st' printed globalErrors))"

text \<open>\<^verbatim>\<open>main\<close>: \<open>args\<close> are the paths of the command line, \<open>fs\<close> gives the collaborators'
  answers for each path.\<close>

definition main :: "(string \<Rightarrow> row \<Rightarrow> string list) \<Rightarrow> string list \<Rightarrow> (string \<Rightarrow> file_input) \<Rightarrow> outcome" where
  "main schema args fs =
     (case load_all fs allFiles init of
        Inl e \<Rightarrow> \<lparr>reports = [], fatal = Some e\<rparr>
      | Inr st \<Rightarrow> validate_all schema (if args \<noteq> [] then args else allFiles) st [] [])"

subsection \<open>Notions used to state the properties\<close>

text \<open>The reference rules \<^verbatim>\<open>main\<close> applies to one row of a table, in its order, and
  the errors of the schema pass for one row.\<close>

definition row_rules :: "string \<Rightarrow> state \<Rightarrow> row \<Rightarrow> nat \<Rightarrow> verror list" where
  "row_rules filename st row i =
     (if filename = ''channels'' then
        validateChannelBroadcastArea st row i @ validateChannelSubdivision st row i @
        validateChannelCategories st row i @ validateChannelReplacedBy st row i @
        validateChannelLanguages st row i @ validateChannelCountry st row i
      else if filename = ''blocklist'' then validateChannelId st row i
      else if filename = ''countries'' then validateCountryLanguage st row i
      else if filename = ''subdivisions'' then validateSubdivisionCountry st row i
      else if filename = ''regions'' then validateRegionCountries st row i
      else [])"

definition schema_errors :: "(string \<Rightarrow> row \<Rightarrow> string list) \<Rightarrow> string \<Rightarrow> row \<Rightarrow> nat \<Rightarrow> verror list" where
  "schema_errors schema filename row i = map (\<lambda>m. \<lparr>line = i + 2, message = m\<rparr>) (schema filename row)"

text \<open>The entry of \<^verbatim>\<open>db[table]\<close> for a key: the position of the row, if the key is a
  key of the index.\<close>

definition index_entry :: "state \<Rightarrow> string \<Rightarrow> string \<Rightarrow> nat option" where
  "index_entry st table k = (case db st table of None \<Rightarrow> None | Some idx \<Rightarrow> idx k)"

text \<open>What \<^verbatim>\<open>findDuplicatesById\<close> does to a row.\<close>

definition lower_id :: "row \<Rightarrow> row" where
  "lower_id row = row\<lparr>row_id := toLowerCase (row_id row)\<rparr>"

text \<open>The \<^verbatim>\<open>fileErrors\<close> of each file to check, in order, with the state passed on.\<close>

fun all_file_errors :: "(string \<Rightarrow> row \<Rightarrow> string list) \<Rightarrow> string list \<Rightarrow> state \<Rightarrow> verror list list" where
  "all_file_errors schema [] st = []"
| "all_file_errors schema (filepath # rest) st =
     (let (st', fileErrors) = validate_file schema (getFilename filepath) st
      in fileErrors # all_file_errors schema rest st')"

text \<open>The commas of a line outside double quotes, read from the left: a double quote
  switches between outside and inside.\<close>

fun unquoted_commas :: "bool \<Rightarrow> string \<Rightarrow> nat" where
  "unquoted_commas inside [] = 0"
| "unquoted_commas inside (c # cs) =
     (if c = CHR 0x22 then unquoted_commas (\<not> inside) cs
      else if c = CHR '','' \<and> \<not> inside then Suc (unquoted_commas inside cs)
      else unquoted_commas inside cs)"

subsection \<open>A small dataset\<close>

text \<open>The scenario of the specification: a channel \<^verbatim>\<open>BBCOne.uk\<close> with the categories
  \<^verbatim>\<open>kids\<close> and \<^verbatim>\<open>xxx\<close>, of which the categories table has only the first. Every
  other reference of the dataset resolves, and the remaining tables have no rows.\<close>

definition blank :: row where
  "blank = \<lparr>row_id = [], channel = [], code = [], country = [], lang = [],
            subdivision = None, replaced_by = None, categories = [], languages = [],
            broadcast_area = [], countries = []\<rparr>"

definition csv_file :: "string \<Rightarrow> row list \<Rightarrow> file_input" where
  "csv_file txt rs = \<lparr>eol = ''CRLF'', content = txt, parsed = Inr rs\<rparr>"

definition crlf :: string where
  "crlf = [CHR 0x0D, CHR 0x0A]"

definition bbc :: row where
  "bbc = blank\<lparr>row_id := ''BBCOne.uk'', country := ''UK'', categories := [''kids'', ''xxx''],
               languages := [''eng''], broadcast_area := [''c/UK'']\<rparr>"

definition dataset :: "string \<Rightarrow> file_input" where
  "dataset p =
     (if p = ''data/channels.csv'' then
        csv_file (''id,country,categories,languages,broadcast_area'' @ crlf @
                  ''BBCOne.uk,UK,kids;xxx,eng,c/UK'') [bbc]
      else if p = ''data/categories.csv'' then
        csv_file (''id'' @ crlf @ ''kids'') [blank\<lparr>row_id := ''kids''\<rparr>]
      else if p = ''data/countries.csv'' then
        csv_file (''code,lang'' @ crlf @ ''UK,eng'') [blank\<lparr>code := ''UK'', lang := ''eng''\<rparr>]
      else if p = ''data/languages.csv'' then
        csv_file (''code'' @ crlf @ ''eng'') [blank\<lparr>code := ''eng''\<rparr>]
      else if p = ''data/blocklist.csv'' then csv_file ''channel'' []
      else csv_file ''code'' [])"

text \<open>The state Phase 1 leaves, when it succeeds.\<close>

definition loaded :: "(string \<Rightarrow> file_input) \<Rightarrow> state" where
  "loaded fs = (case load_all fs allFiles init of Inl e \<Rightarrow> init | Inr st \<Rightarrow> st)"

definition no_schema :: "string \<Rightarrow> row \<Rightarrow> string list" where
  "no_schema filename row = []"

text \<open>The dataset with one file changed: a regions file with line-feed endings, and a
  regions file whose text ends in a line terminator.\<close>

definition lf_regions :: "string \<Rightarrow> file_input" where
  "lf_regions = dataset(''data/regions.csv'' := \<lparr>eol = ''LF'', content = ''code'', parsed = Inr []\<rparr>)"

definition final_newline :: "string \<Rightarrow> file_input" where
  "final_newline = dataset(''data/regions.csv'' := csv_file (''code'' @ crlf) [])"

text \<open>Variants of the dataset: a blocklist row that names the channel in lower case,
  a categories table that has both categories, a second channel whose id differs from
  the first in case only, and a schema that reports one error for every channels row.\<close>

definition blocked :: "string \<Rightarrow> file_input" where
  "blocked = dataset(''data/blocklist.csv'' :=
       csv_file (''channel'' @ crlf @ ''bbcone.uk'') [blank\<lparr>channel := ''bbcone.uk''\<rparr>])"

definition clean :: "string \<Rightarrow> file_input" where
  "clean = dataset(''data/categories.csv'' :=
       csv_file (''id'' @ crlf @ ''kids'' @ crlf @ ''xxx'')
         [blank\<lparr>row_id := ''kids''\<rparr>, blank\<lparr>row_id := ''xxx''\<rparr>])"

definition twice :: "string \<Rightarrow> file_input" where
  "twice = dataset(''data/channels.csv'' :=
       csv_file (''id,country,categories,languages,broadcast_area'' @ crlf @
                 ''BBCOne.uk,UK,kids;xxx,eng,c/UK'' @ crlf @ ''bbcone.UK,UK,kids,eng,c/UK'')
         [bbc, bbc\<lparr>row_id := ''bbcone.UK'', categories := [''kids'']\<rparr>])"

definition name_required :: "string \<Rightarrow> row \<Rightarrow> string list" where
  "name_required filename row = (if filename = ''channels'' then [''\"name\" is required''] else [])"

text \<open>Four channels rows whose ids collide in pairs, up to case.\<close>

definition pairs :: "row list" where
  "pairs = [blank\<lparr>row_id := ''One.uk''\<rparr>, blank\<lparr>row_id := ''one.uk''\<rparr>,
            blank\<lparr>row_id := ''Two.uk''\<rparr>, blank\<lparr>row_id := ''two.uk''\<rparr>]"

text \<open>The dataset with a channel whose broadcast area names a property every object
  inherits, and the dataset with a languages file whose header has a quoted comma.\<close>

definition inherited :: "string \<Rightarrow> file_input" where
  "inherited = dataset(''data/channels.csv'' :=
       csv_file (''id,country,categories,languages,broadcast_area'' @ crlf @
                 ''BBCOne.uk,UK,kids,eng,c/constructor'')
         [bbc\<lparr>categories := [''kids''], broadcast_area := [''c/constructor'']\<rparr>])"

definition quoted_header :: "string \<Rightarrow> file_input" where
  "quoted_header = dataset(''data/languages.csv'' :=
       csv_file (''code,\"name, native\"'' @ crlf @ ''eng,English'') [blank\<lparr>code := ''eng''\<rparr>])"

section \<open>Properties\<close>

subsection \<open>Loops and splitting\<close>

lemma fold_push:
  "fold (\<lambda>x errors. if P x then errors @ [f x] else errors) xs acc = acc @ map f (filter P xs)"
  by (induction xs arbitrary: acc) simp_all

lemma rows_loop_concat:
  "rows_loop body i rows acc = acc @ concat (map (\<lambda>(j, r). body r j) (enumerate i rows))"
  by (induction rows arbitrary: i acc) simp_all

lemma found_db: "db st' = db st \<Longrightarrow> found st' t k = found st t k"
  by (simp add: found_def)

lemma split_char_no_sep: "d \<notin> set t \<Longrightarrow> split_char d cur t = [rev cur @ t]"
  by (induction t arbitrary: cur) auto

lemma split_char_first:
  "d \<notin> set t \<Longrightarrow> split_char d cur (t @ d # rest) = (rev cur @ t) # split_char d [] rest"
  by (induction t arbitrary: cur) auto

lemma split_char_nonempty: "split_char d cur s \<noteq> []"
  by (induction s arbitrary: cur) auto

lemma split_crlf_nonempty: "split_crlf cur s \<noteq> []"
  by (induction cur s rule: split_crlf.induct) auto

lemma area_type_split: "CHR ''/'' \<notin> set t \<Longrightarrow> area_type (t @ CHR ''/'' # rest) = t"
  by (simp add: area_type_def split_char_first)

lemma area_code_split:
  "CHR ''/'' \<notin> set t \<Longrightarrow> CHR ''/'' \<notin> set c \<Longrightarrow> area_code (t @ CHR ''/'' # c) = c"
  by (simp add: area_code_def split_char_first split_char_no_sep)

subsection \<open>Phase 1 ends the run at the first format failure\<close>

lemma allFiles_csv: "\<forall>p\<in>set allFiles. endsWith p ''.csv''"
  by code_simp

lemma load_all_abort:
  "p \<in> set ps \<Longrightarrow> \<forall>q\<in>set ps. endsWith q ''.csv'' \<Longrightarrow> load_file p (fs p) = Inl e \<Longrightarrow>
   \<exists>q\<in>set ps. \<exists>e'. load_file q (fs q) = Inl e' \<and> load_all fs ps st = Inl e'"
proof (induction ps arbitrary: st)
  case Nil
  then show ?case by simp
next
  case (Cons a ps)
  show ?case
  proof (cases "load_file a (fs a)")
    case (Inl e')
    then show ?thesis using Cons.prems(2) by simp
  next
    case (Inr data)
    with Cons.prems have "p \<in> set ps" by auto
    from Cons.IH [OF this, of "st\<lparr>db := (db st)(getFilename a \<mapsto> keyBy data (key_field (getFilename a))),
                         files := (files st)(getFilename a \<mapsto> data)\<rparr>"] Cons.prems Inr show ?thesis
      by (simp add: Let_def)
  qed
qed

lemma load_file_Inl_cases:
  "load_file q f = Inl e \<Longrightarrow>
   e = WrongEol q \<or> e = TrailingBlank q \<or> (\<exists>n. e = WrongColumns n q) \<or> (\<exists>m. e = ParseError m q)"
  by (auto simp: load_file_def split: if_splits option.splits sum.splits)

lemma load_file_violation:
  "eol f \<noteq> ''CRLF'' \<or> ends_in_space (content f) \<or> check_columns (content f) \<noteq> None \<or>
   isl (parsed f) \<Longrightarrow> \<exists>e. load_file p f = Inl e"
  by (auto simp: load_file_def isl_def split: if_splits option.splits sum.splits)

lemma main_abort:
  "load_all fs allFiles init = Inl e \<Longrightarrow> main schema args fs = \<lparr>reports = [], fatal = Some e\<rparr>"
  by (simp add: main_def)

lemma ends_in_space_last: "ends_in_space s \<longleftrightarrow> s \<noteq> [] \<and> is_space (last s)"
  by (cases s rule: rev_cases) (simp_all add: ends_in_space_def)

lemma ends_in_space_iff:
  "ends_in_space s \<longleftrightarrow> (\<exists>u v. s = u @ v \<and> v \<noteq> [] \<and> list_all is_space v)"
proof
  assume "ends_in_space s"
  then have "s = butlast s @ [last s] \<and> [last s] \<noteq> [] \<and> list_all is_space [last s]"
    by (simp add: ends_in_space_last)
  then show "\<exists>u v. s = u @ v \<and> v \<noteq> [] \<and> list_all is_space v" by blast
next
  assume "\<exists>u v. s = u @ v \<and> v \<noteq> [] \<and> list_all is_space v"
  then obtain u v where "s = u @ v" "v \<noteq> []" "list_all is_space v" by blast
  then show "ends_in_space s"
    by (simp add: ends_in_space_last list_all_iff)
qed

lemma ends_in_space_crlf: "ends_in_space (s @ crlf)"
  by (simp add: ends_in_space_last crlf_def is_space_def)

lemma endsWith_append: "endsWith s suf \<Longrightarrow> \<exists>u. s = u @ suf"
  unfolding endsWith_def by (metis append_take_drop_id)

lemma load_file_trailing:
  "ends_in_space (content f) \<Longrightarrow>
   load_file p f = Inl (if eol f \<noteq> ''CRLF'' then WrongEol p else TrailingBlank p)"
  by (simp add: load_file_def)

lemma load_file_accepts:
  "load_file p g = Inr rows \<Longrightarrow> \<not> ends_in_space (content g)"
  by (auto simp: load_file_def split: if_splits)

text \<open>
  Claim C5. Let one of the seven known table files violate the format: its line endings
  are not CRLF, its text ends in white space (so also in blank lines), a line's
  quote-aware column count differs from the header's, or the CSV parser rejects it. Then
  the run ends in Phase 1 with a format error of one of the known files, whatever files
  were requested: nothing has been validated or reported, no error count is printed,
  and the exit status is 1.
\<close>

theorem format_violation_aborts:
  assumes "p \<in> set allFiles"
    and "eol (fs p) \<noteq> ''CRLF'' \<or> ends_in_space (content (fs p)) \<or>
         check_columns (content (fs p)) \<noteq> None \<or> isl (parsed (fs p))"
  shows "\<exists>q\<in>set allFiles. \<exists>e.
           load_file q (fs q) = Inl e \<and>
           (e = WrongEol q \<or> e = TrailingBlank q \<or> (\<exists>n. e = WrongColumns n q) \<or>
            (\<exists>m. e = ParseError m q)) \<and>
           main schema args fs = \<lparr>reports = [], fatal = Some e\<rparr> \<and>
           exit_status (main schema args fs) = 1"
proof -
  from load_file_violation [OF assms(2)] obtain e0 where "load_file p (fs p) = Inl e0" ..
  from load_all_abort [where fs = fs and p = p and ps = allFiles and st = init, OF assms(1) allFiles_csv this]
  obtain q e where q: "q \<in> set allFiles" "load_file q (fs q) = Inl e"
    "load_all fs allFiles init = Inl e" by blast
  from q(3) have m: "main schema args fs = \<lparr>reports = [], fatal = Some e\<rparr>"
    by (rule main_abort)
  then have "exit_status (main schema args fs) = 1" by (simp add: exit_status_def)
  with q m load_file_Inl_cases [OF q(2)] show ?thesis by blast
qed

theorem format_violation_aborts_witness:
  "''data/regions.csv'' \<in> set allFiles \<and> eol (lf_regions ''data/regions.csv'') \<noteq> ''CRLF'' \<and>
   main no_schema [''data/channels.csv''] lf_regions =
     \<lparr>reports = [], fatal = Some (WrongEol ''data/regions.csv'')\<rparr> \<and>
   exit_status (main no_schema [''data/channels.csv''] lf_regions) = 1 \<and>
   (\<exists>q\<in>set allFiles. \<exists>e.
      load_file q (lf_regions q) = Inl e \<and>
      (e = WrongEol q \<or> e = TrailingBlank q \<or> (\<exists>n. e = WrongColumns n q) \<or>
       (\<exists>m. e = ParseError m q)) \<and>
      main no_schema [''data/channels.csv''] lf_regions = \<lparr>reports = [], fatal = Some e\<rparr> \<and>
      exit_status (main no_schema [''data/channels.csv''] lf_regions) = 1)"
proof -
  have a: "''data/regions.csv'' \<in> set allFiles" by code_simp
  have b: "eol (lf_regions ''data/regions.csv'') \<noteq> ''CRLF''" by code_simp
  have c: "main no_schema [''data/channels.csv''] lf_regions =
     \<lparr>reports = [], fatal = Some (WrongEol ''data/regions.csv'')\<rparr>" by code_simp
  have d: "exit_status (main no_schema [''data/channels.csv''] lf_regions) = 1" by code_simp
  from b have b': "eol (lf_regions ''data/regions.csv'') \<noteq> ''CRLF'' \<or>
      ends_in_space (content (lf_regions ''data/regions.csv'')) \<or>
      check_columns (content (lf_regions ''data/regions.csv'')) \<noteq> None \<or>
      isl (parsed (lf_regions ''data/regions.csv''))" by blast
  from a b c d format_violation_aborts [where fs = lf_regions and p = "''data/regions.csv''" and schema = no_schema and args = "[''data/channels.csv'']", OF a b']
  show ?thesis by blast
qed

text \<open>
  Claim C10. The test \<^verbatim>\<open>/\s+$/\<close> holds exactly for the texts with a non-empty
  white-space suffix, so for every text that ends in CRLF. A file whose text ends in
  white space is rejected before its columns are counted (with the line-ending error if
  that check fails first, else with the trailing-lines error); an accepted file does
  not end in white space, so its last line is not terminated. When one of the seven
  files ends in white space the run ends in Phase 1 with status 1 and nothing reported.
\<close>

theorem trailing_space_rejected:
  "(ends_in_space s \<longleftrightarrow> (\<exists>u v. s = u @ v \<and> v \<noteq> [] \<and> list_all is_space v))
   \<and> ends_in_space (s @ crlf)
   \<and> (ends_in_space (content f) \<longrightarrow>
        load_file p f = Inl (if eol f \<noteq> ''CRLF'' then WrongEol p else TrailingBlank p))
   \<and> (load_file p g = Inr rows \<longrightarrow>
        \<not> ends_in_space (content g) \<and> \<not> endsWith (content g) crlf)
   \<and> (p \<in> set allFiles \<and> ends_in_space (content (fs p)) \<longrightarrow>
        (\<exists>q\<in>set allFiles. \<exists>e.
           load_file q (fs q) = Inl e \<and>
           main schema args fs = \<lparr>reports = [], fatal = Some e\<rparr> \<and>
           exit_status (main schema args fs) = 1))"
proof (intro conjI impI)
  show "ends_in_space s \<longleftrightarrow> (\<exists>u v. s = u @ v \<and> v \<noteq> [] \<and> list_all is_space v)"
    by (rule ends_in_space_iff)
  show "ends_in_space (s @ crlf)" by (rule ends_in_space_crlf)
  show "load_file p f = Inl (if eol f \<noteq> ''CRLF'' then WrongEol p else TrailingBlank p)"
    if "ends_in_space (content f)" using that by (rule load_file_trailing)
next
  assume a: "load_file p g = Inr rows"
  then show "\<not> ends_in_space (content g)" by (rule load_file_accepts)
  then show "\<not> endsWith (content g) crlf"
    using endsWith_append [of "content g" crlf] ends_in_space_crlf by metis
next
  assume a: "p \<in> set allFiles \<and> ends_in_space (content (fs p))"
  then have "load_file p (fs p) =
      Inl (if eol (fs p) \<noteq> ''CRLF'' then WrongEol p else TrailingBlank p)"
    by (simp add: load_file_trailing)
  from load_all_abort [where fs = fs and p = p and ps = allFiles and st = init, OF _ allFiles_csv this] a
  obtain q e where q: "q \<in> set allFiles" "load_file q (fs q) = Inl e"
    "load_all fs allFiles init = Inl e" by blast
  from q(3) have m: "main schema args fs = \<lparr>reports = [], fatal = Some e\<rparr>"
    by (rule main_abort)
  then have "exit_status (main schema args fs) = 1" by (simp add: exit_status_def)
  with q m show "\<exists>q\<in>set allFiles. \<exists>e.
           load_file q (fs q) = Inl e \<and>
           main schema args fs = \<lparr>reports = [], fatal = Some e\<rparr> \<and>
           exit_status (main schema args fs) = 1" by blast
qed

theorem trailing_space_rejected_witness:
  "ends_in_space (content (csv_file (''code'' @ crlf) []))
   \<and> load_file ''data/regions.csv'' (csv_file (''code'' @ crlf) []) =
       Inl (TrailingBlank ''data/regions.csv'')
   \<and> load_file ''data/regions.csv'' (csv_file ''code'' []) = Inr []
   \<and> \<not> endsWith (content (csv_file ''code'' [])) crlf
   \<and> ''data/regions.csv'' \<in> set allFiles
   \<and> ends_in_space (content (final_newline ''data/regions.csv''))
   \<and> main no_schema [] final_newline =
       \<lparr>reports = [], fatal = Some (TrailingBlank ''data/regions.csv'')\<rparr>
   \<and> exit_status (main no_schema [] final_newline) = 1"
proof -
  have h1: "ends_in_space (content (csv_file (''code'' @ crlf) []))" by code_simp
  have h2: "load_file ''data/regions.csv'' (csv_file ''code'' []) = Inr []" by code_simp
  have h3: "''data/regions.csv'' \<in> set allFiles \<and>
            ends_in_space (content (final_newline ''data/regions.csv''))" by code_simp
  have m: "main no_schema [] final_newline =
       \<lparr>reports = [], fatal = Some (TrailingBlank ''data/regions.csv'')\<rparr>" by code_simp
  have e: "eol (csv_file (''code'' @ crlf) []) = ''CRLF''" by code_simp
  note inst = trailing_space_rejected [where f = "csv_file (''code'' @ crlf) []"
      and p = "''data/regions.csv''" and g = "csv_file ''code'' []" and rows = "[]"
      and fs = final_newline and schema = no_schema and args = "[]" and s = "''code''"]
  from inst h1 e have c1: "load_file ''data/regions.csv'' (csv_file (''code'' @ crlf) []) =
       Inl (TrailingBlank ''data/regions.csv'')" by simp
  from inst h2 have c2: "\<not> endsWith (content (csv_file ''code'' [])) crlf" by blast
  from inst h3 m have c3: "exit_status (main no_schema [] final_newline) = 1" by auto
  from h1 h2 h3 m c1 c2 c3 show ?thesis by blast
qed

subsection \<open>The errors of one file\<close>

lemmas validator_defs =
  validateChannelBroadcastArea_def validateChannelSubdivision_def validateChannelCategories_def
  validateChannelReplacedBy_def validateChannelLanguages_def validateChannelCountry_def
  validateChannelId_def validateCountryLanguage_def validateSubdivisionCountry_def
  validateRegionCountries_def

lemma row_rules_db: "db st' = db st \<Longrightarrow> row_rules filename st' row i = row_rules filename st row i"
  by (simp add: row_rules_def validator_defs found_db [of st' st])

lemma row_rules_line: "e \<in> set (row_rules filename st row i) \<Longrightarrow> line e = i + 2"
  by (auto simp: row_rules_def validator_defs fold_push split: if_splits)

lemma schema_errors_line: "e \<in> set (schema_errors schema filename row i) \<Longrightarrow> line e = i + 2"
  by (auto simp: schema_errors_def)

lemma concat_lines_ge:
  "\<forall>row i. \<forall>e\<in>set (body row i). line e = i + 2 \<Longrightarrow>
   \<forall>e\<in>set (concat (map (\<lambda>(i, row). body row i) (enumerate k rows))). k + 2 \<le> line e"
  by (induction rows arbitrary: k) fastforce+

lemma concat_lines_sorted:
  assumes "\<forall>row i. \<forall>e\<in>set (body row i). line e = i + 2"
  shows "sorted (map line (concat (map (\<lambda>(i, row). body row i) (enumerate k rows))))"
proof (induction rows arbitrary: k)
  case Nil
  then show ?case by simp
next
  case (Cons r rows)
  have a: "\<forall>x\<in>set (body r k). line x = k + 2" using assms by blast
  have b: "\<forall>y\<in>set (concat (map (\<lambda>(i, row). body row i) (enumerate (Suc k) rows))). Suc k + 2 \<le> line y"
    using concat_lines_ge [OF assms] by blast
  have "sorted (map line (body r k))" using a
    by (induction "body r k") (auto simp: sorted_wrt_iff_nth_less nth_mem)
  moreover have "\<forall>x\<in>set (body r k).
      \<forall>y\<in>set (concat (map (\<lambda>(i, row). body row i) (enumerate (Suc k) rows))). line x \<le> line y"
  proof (intro ballI)
    fix x y
    assume "x \<in> set (body r k)"
      and "y \<in> set (concat (map (\<lambda>(i, row). body row i) (enumerate (Suc k) rows)))"
    with a b have "line x = k + 2" "Suc k + 2 \<le> line y" by blast+
    then show "line x \<le> line y" by simp
  qed
  ultimately show ?case using Cons.IH [of "Suc k"]
    by (simp add: sorted_append)
qed

lemma findDuplicatesById_rows: "fst (findDuplicatesById rows) = map lower_id rows"
  by (simp add: findDuplicatesById_def Let_def lower_id_def)

lemma found_files: "found (st\<lparr>files := F\<rparr>) t k = found st t k"
  by (simp add: found_def)

lemma validators_files:
  "validateChannelBroadcastArea (st\<lparr>files := F\<rparr>) row i = validateChannelBroadcastArea st row i"
  "validateChannelSubdivision (st\<lparr>files := F\<rparr>) row i = validateChannelSubdivision st row i"
  "validateChannelCategories (st\<lparr>files := F\<rparr>) row i = validateChannelCategories st row i"
  "validateChannelReplacedBy (st\<lparr>files := F\<rparr>) row i = validateChannelReplacedBy st row i"
  "validateChannelLanguages (st\<lparr>files := F\<rparr>) row i = validateChannelLanguages st row i"
  "validateChannelCountry (st\<lparr>files := F\<rparr>) row i = validateChannelCountry st row i"
  by (simp_all add: validator_defs found_files)

lemma validate_file_channels:
  assumes "files st ''channels'' = Some rows"
  shows "validate_file schema ''channels'' st =
     (st\<lparr>files := (files st)(''channels'' \<mapsto> map lower_id rows)\<rparr>,
      snd (findDuplicatesById rows) @
      concat (map (\<lambda>(i, row). row_rules ''channels'' st row i) (enumerate 0 (map lower_id rows))) @
      concat (map (\<lambda>(i, row). schema_errors schema ''channels'' row i) (enumerate 0 (map lower_id rows))))"
proof -
  obtain lowered dups where fd: "findDuplicatesById rows = (lowered, dups)"
    by (cases "findDuplicatesById rows")
  then have l: "lowered = map lower_id rows"
    using findDuplicatesById_rows [of rows] by simp
  show ?thesis using assms
    by (simp add: validate_file_def fd l rows_loop_concat validators_files
        row_rules_def schema_errors_def)
qed

lemma validate_file_other:
  assumes "files st filename = Some rows" and "filename \<noteq> ''channels''"
  shows "validate_file schema filename st =
     (st,
      concat (map (\<lambda>(i, row). row_rules filename st row i) (enumerate 0 rows)) @
      concat (map (\<lambda>(i, row). schema_errors schema filename row i) (enumerate 0 rows)))"
  using assms
  by (simp add: validate_file_def rows_loop_concat row_rules_def schema_errors_def)

lemma validate_file_errors:
  assumes "files st filename = Some rows"
  shows "snd (validate_file schema filename st) =
     (let rows' = (if filename = ''channels'' then fst (findDuplicatesById rows) else rows)
      in (if filename = ''channels'' then snd (findDuplicatesById rows) else []) @
         concat (map (\<lambda>(i, row). row_rules filename st row i) (enumerate 0 rows')) @
         concat (map (\<lambda>(i, row). schema_errors schema filename row i) (enumerate 0 rows')))"
proof (cases "filename = ''channels''")
  case True
  then show ?thesis using validate_file_channels [of st rows schema] assms
    by (simp add: findDuplicatesById_rows Let_def)
next
  case False
  then show ?thesis using validate_file_other [OF assms False, of schema] by simp
qed

lemma validate_file_none: "files st filename = None \<Longrightarrow> validate_file schema filename st = (st, [])"
  by (simp add: validate_file_def)

lemma validate_file_state:
  "validate_file schema filename st =
     ((if filename = ''channels'' \<and> files st filename \<noteq> None
       then st\<lparr>files := (files st)(''channels'' := map_option (map lower_id) (files st ''channels''))\<rparr>
       else st),
      snd (validate_file schema filename st))"
proof (cases "files st filename")
  case None
  then show ?thesis by (simp add: validate_file_none)
next
  case (Some rows)
  show ?thesis
  proof (cases "filename = ''channels''")
    case True
    with Some validate_file_channels [of st rows schema] show ?thesis by simp
  next
    case False
    with Some validate_file_other [of st filename rows schema] show ?thesis by simp
  qed
qed

text \<open>
  Claim C6. For a validated file the error list is the errors of the duplicate detector
  (channels only), then the errors of the reference rules row by row (all rules of row
  0, then those of row 1, and so on), then the errors of the schema pass row by row.
  Every error of a row carries the line of that row, so within the reference part and
  within the schema part the lines never decrease: the order is that of the rows.
\<close>

theorem file_errors_order:
  assumes "files st filename = Some rows"
  shows "snd (validate_file schema filename st) =
     (let rows' = (if filename = ''channels'' then fst (findDuplicatesById rows) else rows)
      in (if filename = ''channels'' then snd (findDuplicatesById rows) else []) @
         concat (map (\<lambda>(i, row). row_rules filename st row i) (enumerate 0 rows')) @
         concat (map (\<lambda>(i, row). schema_errors schema filename row i) (enumerate 0 rows')))
   \<and> (\<forall>row i. \<forall>e\<in>set (row_rules filename st row i @ schema_errors schema filename row i).
         line e = i + 2)
   \<and> (\<forall>rs. sorted (map line (concat (map (\<lambda>(i, row). row_rules filename st row i) (enumerate 0 rs))))
          \<and> sorted (map line (concat (map (\<lambda>(i, row). schema_errors schema filename row i)
                (enumerate 0 rs)))))"
proof -
  have r: "\<forall>row i. \<forall>e\<in>set (row_rules filename st row i). line e = i + 2"
    using row_rules_line by blast
  have s: "\<forall>row i. \<forall>e\<in>set (schema_errors schema filename row i). line e = i + 2"
    using schema_errors_line by blast
  from r s have "\<forall>row i. \<forall>e\<in>set (row_rules filename st row i @ schema_errors schema filename row i).
         line e = i + 2" by auto
  with validate_file_errors [OF assms, of schema]
    concat_lines_sorted [where body = "row_rules filename st", OF r]
    concat_lines_sorted [where body = "schema_errors schema filename", OF s]
  show ?thesis by blast
qed

theorem file_errors_order_witness:
  "files (loaded twice) ''channels'' = Some [bbc, bbc\<lparr>row_id := ''bbcone.UK'', categories := [''kids'']\<rparr>]
   \<and> snd (validate_file name_required ''channels'' (loaded twice)) =
       [\<lparr>line = 3, message = ''entry with the id \"bbcone.uk\" already exists''\<rparr>,
        \<lparr>line = 2, message = ''\"bbcone.uk\" has the wrong category \"xxx\"''\<rparr>,
        \<lparr>line = 2, message = ''\"name\" is required''\<rparr>,
        \<lparr>line = 3, message = ''\"name\" is required''\<rparr>]"
proof -
  have h: "files (loaded twice) ''channels'' =
      Some [bbc, bbc\<lparr>row_id := ''bbcone.UK'', categories := [''kids'']\<rparr>]" by code_simp
  from file_errors_order [OF h, of name_required]
  have "snd (validate_file name_required ''channels'' (loaded twice)) =
     (let rows' = (if ''channels'' = ''channels''
                   then fst (findDuplicatesById [bbc, bbc\<lparr>row_id := ''bbcone.UK'', categories := [''kids'']\<rparr>])
                   else [bbc, bbc\<lparr>row_id := ''bbcone.UK'', categories := [''kids'']\<rparr>])
      in (if ''channels'' = ''channels''
          then snd (findDuplicatesById [bbc, bbc\<lparr>row_id := ''bbcone.UK'', categories := [''kids'']\<rparr>])
          else []) @
         concat (map (\<lambda>(i, row). row_rules ''channels'' (loaded twice) row i) (enumerate 0 rows')) @
         concat (map (\<lambda>(i, row). schema_errors name_required ''channels'' row i) (enumerate 0 rows')))"
    by (rule conjunct1)
  also have "\<dots> =
       [\<lparr>line = 3, message = ''entry with the id \"bbcone.uk\" already exists''\<rparr>,
        \<lparr>line = 2, message = ''\"bbcone.uk\" has the wrong category \"xxx\"''\<rparr>,
        \<lparr>line = 2, message = ''\"name\" is required''\<rparr>,
        \<lparr>line = 3, message = ''\"name\" is required''\<rparr>]" by code_simp
  finally show ?thesis using h by simp
qed

subsection \<open>The exit status\<close>

lemma validate_all_closed:
  "\<forall>p\<in>set ps. has_scheme (getFilename p) \<Longrightarrow>
   validate_all schema ps st printed globalErrors =
     \<lparr>reports = printed @ filter (\<lambda>(p, es). es \<noteq> []) (zip ps (all_file_errors schema ps st)),
      fatal = (if globalErrors @ concat (all_file_errors schema ps st) \<noteq> []
               then Some (ErrorCount (length (globalErrors @ concat (all_file_errors schema ps st))))
               else None)\<rparr>"
proof (induction ps arbitrary: st printed globalErrors)
  case Nil
  then show ?case by simp
next
  case (Cons p ps)
  obtain st' es where v: "validate_file schema (getFilename p) st = (st', es)"
    by (cases "validate_file schema (getFilename p) st")
  from Cons.prems have sch: "has_scheme (getFilename p)" and rest: "\<forall>p\<in>set ps. has_scheme (getFilename p)"
    by simp_all
  show ?case
  proof (cases "es = []")
    case True
    with Cons.IH [OF rest, of st' printed globalErrors] sch v show ?thesis by simp
  next
    case False
    with Cons.IH [OF rest, of st' "printed @ [(p, es)]" "globalErrors @ es"] sch v show ?thesis by simp
  qed
qed

lemma allFiles_schemes: "\<forall>p\<in>set allFiles. has_scheme (getFilename p)"
  by code_simp

lemma loaded_Inr: "\<not> isl (load_all fs allFiles init) \<Longrightarrow> load_all fs allFiles init = Inr (loaded fs)"
  by (cases "load_all fs allFiles init") (simp_all add: loaded_def)

text \<open>
  Claim C7. When Phase 1 has succeeded and every requested path has a scheme (so no
  fatal format, parse or missing-scheme error occurs), the exit status is 0 exactly
  when the errors accumulated over the validated files number zero; otherwise the run
  ends with the count as its message and status 1. The files printed are those with
  at least one error.
\<close>

theorem exit_status_count:
  assumes "load_all fs allFiles init = Inr st"
    and "\<forall>p\<in>set args. has_scheme (getFilename p)"
  shows "(exit_status (main schema args fs) = 0 \<longleftrightarrow>
            length (concat (all_file_errors schema (if args \<noteq> [] then args else allFiles) st)) = 0)
   \<and> (length (concat (all_file_errors schema (if args \<noteq> [] then args else allFiles) st)) \<noteq> 0 \<longrightarrow>
        exit_status (main schema args fs) = 1 \<and>
        fatal (main schema args fs) = Some (ErrorCount (length (concat
           (all_file_errors schema (if args \<noteq> [] then args else allFiles) st)))))
   \<and> reports (main schema args fs) =
        filter (\<lambda>(p, es). es \<noteq> [])
          (zip (if args \<noteq> [] then args else allFiles)
               (all_file_errors schema (if args \<noteq> [] then args else allFiles) st))"
proof -
  have "\<forall>p\<in>set (if args \<noteq> [] then args else allFiles). has_scheme (getFilename p)"
    using assms(2) allFiles_schemes by simp
  from validate_all_closed [OF this, of schema st "[]" "[]"] assms(1)
  show ?thesis by (simp add: main_def exit_status_def)
qed

theorem exit_status_count_witness:
  "load_all dataset allFiles init = Inr (loaded dataset)
   \<and> load_all clean allFiles init = Inr (loaded clean)
   \<and> has_scheme (getFilename ''data/channels.csv'')
   \<and> length (concat (all_file_errors no_schema [''data/channels.csv''] (loaded dataset))) = 1
   \<and> exit_status (main no_schema [''data/channels.csv''] dataset) = 1
   \<and> fatal (main no_schema [''data/channels.csv''] dataset) = Some (ErrorCount 1)
   \<and> length (concat (all_file_errors no_schema [''data/channels.csv''] (loaded clean))) = 0
   \<and> exit_status (main no_schema [''data/channels.csv''] clean) = 0"
proof -
  have "\<not> isl (load_all dataset allFiles init)" by code_simp
  then have h1: "load_all dataset allFiles init = Inr (loaded dataset)" by (rule loaded_Inr)
  have "\<not> isl (load_all clean allFiles init)" by code_simp
  then have h2: "load_all clean allFiles init = Inr (loaded clean)" by (rule loaded_Inr)
  have s: "has_scheme (getFilename ''data/channels.csv'')" by code_simp
  then have a: "\<forall>p\<in>set [''data/channels.csv'']. has_scheme (getFilename p)" by simp
  have n1: "length (concat (all_file_errors no_schema [''data/channels.csv''] (loaded dataset))) = 1"
    by code_simp
  have n2: "length (concat (all_file_errors no_schema [''data/channels.csv''] (loaded clean))) = 0"
    by code_simp
  from exit_status_count [OF h1 a, of no_schema] n1
  have 1: "exit_status (main no_schema [''data/channels.csv''] dataset) = 1
     \<and> fatal (main no_schema [''data/channels.csv''] dataset) = Some (ErrorCount 1)"
    by (simp del: all_file_errors.simps)
  from exit_status_count [OF h2 a, of no_schema] n2
  have 2: "exit_status (main no_schema [''data/channels.csv''] clean) = 0"
    by (simp del: all_file_errors.simps)
  from h1 h2 s n1 n2 1 2 show ?thesis by blast
qed

subsection \<open>Lower-cased ids\<close>

lemma toLowerChar_idem: "toLowerChar (toLowerChar c) = toLowerChar c"
proof -
  have lt: "(of_char c :: nat) < 256" by simp
  show ?thesis
    using lt unfolding toLowerChar_def Let_def
    by (auto simp: of_char_of [where ?'a = nat])
qed

lemma toLowerCase_idem: "toLowerCase (toLowerCase s) = toLowerCase s"
  by (simp add: toLowerCase_def toLowerChar_idem)

lemma lower_id_idem: "lower_id (lower_id r) = lower_id r"
  by (simp add: lower_id_def toLowerCase_idem)

lemma in_concat_enumerate:
  "i < length rs \<Longrightarrow> e \<in> set (body (rs ! i) i) \<Longrightarrow>
   e \<in> set (concat (map (\<lambda>(j, r). body r j) (enumerate 0 rs)))"
proof -
  assume a: "i < length rs" and b: "e \<in> set (body (rs ! i) i)"
  from a have "(i, rs ! i) \<in> set (enumerate 0 rs)"
    by (simp add: in_set_enumerate_eq)
  with b show ?thesis by force
qed

text \<open>The wrong category of a row survives the lower-casing of the ids.\<close>

lemma category_error:
  assumes "''xxx'' \<in> set (categories r)" and "\<not> found st ''categories'' ''xxx''"
  shows "\<lparr>line = i + 2, message = wrong (toLowerCase (row_id r)) ''category'' ''xxx''\<rparr>
           \<in> set (row_rules ''channels'' st (lower_id r) i)"
  using assms by (simp add: row_rules_def validateChannelCategories_def fold_push lower_id_def)

lemma channels_error:
  assumes "db st' = db st"
    and "files st' ''channels'' = Some rs" and "map lower_id rs = map lower_id rows"
    and "i < length rows" and "''xxx'' \<in> set (categories (rows ! i))"
    and "\<not> found st ''categories'' ''xxx''"
  shows "\<lparr>line = i + 2, message = wrong (toLowerCase (row_id (rows ! i))) ''category'' ''xxx''\<rparr>
           \<in> set (snd (validate_file schema ''channels'' st'))"
proof -
  have f: "\<not> found st' ''categories'' ''xxx''"
    using assms(1,6) by (simp add: found_db [of st' st])
  have "\<lparr>line = i + 2, message = wrong (toLowerCase (row_id (rows ! i))) ''category'' ''xxx''\<rparr>
      \<in> set (row_rules ''channels'' st' (map lower_id rows ! i) i)"
    using category_error [OF assms(5) f] assms(4) by simp
  moreover have "i < length (map lower_id rows)" using assms(4) by simp
  ultimately have "\<lparr>line = i + 2, message = wrong (toLowerCase (row_id (rows ! i))) ''category'' ''xxx''\<rparr>
      \<in> set (concat (map (\<lambda>(j, r). row_rules ''channels'' st' r j) (enumerate 0 (map lower_id rows))))"
    by (rule in_concat_enumerate [rotated])
  then show ?thesis
    using validate_file_channels [OF assms(2), of schema] assms(3) by simp
qed

lemma validate_all_errors_fatal:
  "globalErrors \<noteq> [] \<Longrightarrow> fatal (validate_all schema ps st printed globalErrors) \<noteq> None"
proof (induction ps arbitrary: st printed globalErrors)
  case Nil
  then show ?case by simp
next
  case (Cons p ps)
  obtain st' es where v: "validate_file schema (getFilename p) st = (st', es)"
    by (cases "validate_file schema (getFilename p) st")
  show ?case using Cons.IH [of "globalErrors @ es" st'] Cons.IH [of globalErrors st'] Cons.prems v
    by (simp add: Let_def)
qed

lemma validate_all_channels_fatal:
  assumes "i < length rows" and "''xxx'' \<in> set (categories (rows ! i))"
    and "\<not> found st ''categories'' ''xxx''"
  shows "\<exists>p\<in>set ps. getFilename p = ''channels'' \<Longrightarrow> db st' = db st \<Longrightarrow>
         files st' ''channels'' = Some rs \<Longrightarrow> map lower_id rs = map lower_id rows \<Longrightarrow>
         fatal (validate_all schema ps st' printed globalErrors) \<noteq> None"
proof (induction ps arbitrary: st' rs printed globalErrors)
  case Nil
  then show ?case by simp
next
  case (Cons p ps)
  obtain st2 es where v: "validate_file schema (getFilename p) st' = (st2, es)"
    by (cases "validate_file schema (getFilename p) st'")
  show ?case
  proof (cases "has_scheme (getFilename p)")
    case False
    then show ?thesis by simp
  next
    case True
    show ?thesis
    proof (cases "getFilename p = ''channels''")
      case c: True
      have "es \<noteq> []"
        using channels_error [OF Cons.prems(2,3,4) assms, of schema] v c by auto
      then show ?thesis using True v validate_all_errors_fatal [of "globalErrors @ es" schema ps st2]
        by simp
    next
      case c: False
      with Cons.prems(1) have ex: "\<exists>p\<in>set ps. getFilename p = ''channels''" by simp
      from v c have st2: "st2 = st'" using validate_file_state [of schema "getFilename p" st'] by simp
      show ?thesis
        using Cons.IH [OF ex Cons.prems(2,3,4), of printed globalErrors]
          Cons.IH [OF ex Cons.prems(2,3,4), of "printed @ [(p, es)]" "globalErrors @ es"] True v st2
        by simp
    qed
  qed
qed

text \<open>
  Claim C1, as the code has it. For a channels row with the id \<^verbatim>\<open>BBCOne.uk\<close> whose
  categories contain \<^verbatim>\<open>xxx\<close>, which the look-up in the categories index does not find,
  validating channels gives an error at the row's line (position + 2) whose message is
  \<^verbatim>\<open>"bbcone.uk" has the wrong category "xxx"\<close>: it cites the id in lower case, since
  the duplicate detector has lower-cased the ids of the rows before the reference rules
  run. A run that validates channels ends with status 1.
\<close>

theorem wrong_category_reported:
  assumes "load_all fs allFiles init = Inr st"
    and "files st ''channels'' = Some rows"
    and "i < length rows" and "row_id (rows ! i) = ''BBCOne.uk''"
    and "''xxx'' \<in> set (categories (rows ! i))"
    and "\<not> found st ''categories'' ''xxx''"
  shows "\<lparr>line = i + 2, message = ''\"bbcone.uk\" has the wrong category \"xxx\"''\<rparr>
           \<in> set (snd (validate_file schema ''channels'' st))
   \<and> ((\<exists>p\<in>set (if args \<noteq> [] then args else allFiles). getFilename p = ''channels'') \<longrightarrow>
        exit_status (main schema args fs) = 1)"
proof -
  have low: "toLowerCase ''BBCOne.uk'' = ''bbcone.uk''" by code_simp
  have "\<lparr>line = i + 2, message = wrong (toLowerCase (row_id (rows ! i))) ''category'' ''xxx''\<rparr>
           \<in> set (snd (validate_file schema ''channels'' st))"
    using channels_error [OF refl assms(2) refl assms(3,5,6)] .
  then have 1: "\<lparr>line = i + 2, message = ''\"bbcone.uk\" has the wrong category \"xxx\"''\<rparr>
           \<in> set (snd (validate_file schema ''channels'' st))"
    by (simp add: assms(4) low wrong_def)
  have 2: "exit_status (main schema args fs) = 1"
    if "\<exists>p\<in>set (if args \<noteq> [] then args else allFiles). getFilename p = ''channels''"
  proof -
    from validate_all_channels_fatal [OF assms(3,5,6) that refl assms(2) refl, of schema "[]" "[]"]
    obtain e where "fatal (validate_all schema (if args \<noteq> [] then args else allFiles) st [] []) = Some e"
      by blast
    then show ?thesis unfolding main_def exit_status_def using assms(1) by simp
  qed
  from 1 2 show ?thesis by blast
qed

theorem wrong_category_reported_witness:
  "load_all dataset allFiles init = Inr (loaded dataset)
   \<and> files (loaded dataset) ''channels'' = Some [bbc]
   \<and> 0 < length [bbc] \<and> row_id ([bbc] ! 0) = ''BBCOne.uk''
   \<and> ''xxx'' \<in> set (categories ([bbc] ! 0))
   \<and> \<not> found (loaded dataset) ''categories'' ''xxx''
   \<and> getFilename ''data/channels.csv'' = ''channels''
   \<and> \<lparr>line = 2, message = ''\"bbcone.uk\" has the wrong category \"xxx\"''\<rparr>
        \<in> set (snd (validate_file no_schema ''channels'' (loaded dataset)))
   \<and> exit_status (main no_schema [''data/channels.csv''] dataset) = 1"
proof -
  have "\<not> isl (load_all dataset allFiles init)" by code_simp
  then have h1: "load_all dataset allFiles init = Inr (loaded dataset)" by (rule loaded_Inr)
  have h2: "files (loaded dataset) ''channels'' = Some [bbc]" by code_simp
  have h3: "0 < length [bbc]" by simp
  have h4: "row_id ([bbc] ! 0) = ''BBCOne.uk''" by code_simp
  have h5: "''xxx'' \<in> set (categories ([bbc] ! 0))" by code_simp
  have h6: "\<not> found (loaded dataset) ''categories'' ''xxx''" by code_simp
  have h7: "getFilename ''data/channels.csv'' = ''channels''" by code_simp
  have two: "0 + 2 = (2::nat)" by simp
  from wrong_category_reported [OF h1 h2 h3 h4 h5 h6, of no_schema "[''data/channels.csv'']"] h7
  have "\<lparr>line = 2, message = ''\"bbcone.uk\" has the wrong category \"xxx\"''\<rparr>
        \<in> set (snd (validate_file no_schema ''channels'' (loaded dataset)))
     \<and> exit_status (main no_schema [''data/channels.csv''] dataset) = 1"
    unfolding two by simp
  with h1 h2 h3 h4 h5 h6 h7 show ?thesis by blast
qed

text \<open>
  Claim C1 as stated fails on the dataset: the only error of the channels file cites
  \<^verbatim>\<open>bbcone.uk\<close>, and no error has the message with the id in its original case.
\<close>

theorem wrong_category_counterexample:
  "load_all dataset allFiles init = Inr (loaded dataset)
   \<and> files (loaded dataset) ''channels'' = Some [bbc]
   \<and> row_id bbc = ''BBCOne.uk'' \<and> categories bbc = [''kids'', ''xxx'']
   \<and> \<not> found (loaded dataset) ''categories'' ''xxx''
   \<and> snd (validate_file no_schema ''channels'' (loaded dataset)) =
        [\<lparr>line = 2, message = ''\"bbcone.uk\" has the wrong category \"xxx\"''\<rparr>]
   \<and> \<lparr>line = 2, message = ''\"BBCOne.uk\" has the wrong category \"xxx\"''\<rparr>
        \<notin> set (snd (validate_file no_schema ''channels'' (loaded dataset)))
   \<and> main no_schema [] dataset =
        \<lparr>reports = [(''data/channels.csv'',
                     [\<lparr>line = 2, message = ''\"bbcone.uk\" has the wrong category \"xxx\"''\<rparr>])],
         fatal = Some (ErrorCount 1)\<rparr>"
proof -
  have "\<not> isl (load_all dataset allFiles init)" by code_simp
  then have "load_all dataset allFiles init = Inr (loaded dataset)" by (rule loaded_Inr)
  moreover have "files (loaded dataset) ''channels'' = Some [bbc]" by code_simp
  moreover have "row_id bbc = ''BBCOne.uk'' \<and> categories bbc = [''kids'', ''xxx'']" by code_simp
  moreover have "\<not> found (loaded dataset) ''categories'' ''xxx''" by code_simp
  moreover have "snd (validate_file no_schema ''channels'' (loaded dataset)) =
        [\<lparr>line = 2, message = ''\"bbcone.uk\" has the wrong category \"xxx\"''\<rparr>]" by code_simp
  moreover have "main no_schema [] dataset =
        \<lparr>reports = [(''data/channels.csv'',
                     [\<lparr>line = 2, message = ''\"bbcone.uk\" has the wrong category \"xxx\"''\<rparr>])],
         fatal = Some (ErrorCount 1)\<rparr>" by code_simp
  ultimately show ?thesis by simp
qed

text \<open>
  Claim C9, as the code has it. Validating a file never changes the indexes (their keys
  and the row each key refers to), and it leaves the rows of every table but channels
  as they are; validating channels replaces the id of every channels row by its
  lower-case form and changes no other field. An index refers to the rows of the
  table's array, so the channels index sees the lower-cased rows too.
\<close>

theorem validation_changes_ids_only:
  "validate_file schema filename st = (st', errs) \<Longrightarrow>
     db st' = db st
   \<and> (\<forall>name. name \<noteq> ''channels'' \<longrightarrow> files st' name = files st name)
   \<and> (filename \<noteq> ''channels'' \<longrightarrow> st' = st)
   \<and> (filename = ''channels'' \<longrightarrow>
        files st' ''channels'' =
          map_option (map (\<lambda>r. r\<lparr>row_id := toLowerCase (row_id r)\<rparr>)) (files st ''channels''))"
proof -
  assume "validate_file schema filename st = (st', errs)"
  with validate_file_state [of schema filename st]
  have "st' = (if filename = ''channels'' \<and> files st filename \<noteq> None
       then st\<lparr>files := (files st)(''channels'' := map_option (map lower_id) (files st ''channels''))\<rparr>
       else st)" by simp
  moreover have "lower_id = (\<lambda>r. r\<lparr>row_id := toLowerCase (row_id r)\<rparr>)"
    by (simp add: fun_eq_iff lower_id_def)
  ultimately show ?thesis by auto
qed

theorem validation_changes_ids_only_witness:
  "map_option (map row_id) (files (fst (validate_file no_schema ''channels'' (loaded dataset))) ''channels'') =
     Some [''bbcone.uk'']
   \<and> map_option (map categories)
       (files (fst (validate_file no_schema ''channels'' (loaded dataset))) ''channels'') =
     Some [[''kids'', ''xxx'']]
   \<and> files (fst (validate_file no_schema ''channels'' (loaded dataset))) ''categories'' =
       files (loaded dataset) ''categories''
   \<and> fst (validate_file no_schema ''categories'' (loaded dataset)) = loaded dataset"
proof -
  have f: "files (loaded dataset) ''channels'' = Some [bbc]" by code_simp
  have l: "toLowerCase (row_id bbc) = ''bbcone.uk''" "categories bbc = [''kids'', ''xxx'']"
    by code_simp+
  from validation_changes_ids_only [OF surjective_pairing, of no_schema "''channels''" "loaded dataset"]
    validation_changes_ids_only [OF surjective_pairing, of no_schema "''categories''" "loaded dataset"]
  show ?thesis by (simp add: f l)
qed

text \<open>
  Claim C9 as stated fails on the dataset: the id of the channels row after validating
  channels is not the id it had after Phase 1.
\<close>

theorem rows_unchanged_counterexample:
  "map_option (map row_id) (files (loaded dataset) ''channels'') = Some [''BBCOne.uk'']
   \<and> map_option (map row_id)
       (files (fst (validate_file no_schema ''channels'' (loaded dataset))) ''channels'') =
     Some [''bbcone.uk'']"
  by code_simp

subsection \<open>The keys of the indexes\<close>

lemma keyBy_from_dom: "dom (keyBy_from i key rs m) = dom m \<union> key ` set rs"
  by (induction rs arbitrary: i m) auto

lemma keyBy_dom: "dom (keyBy data key) = key ` set data"
  by (simp add: keyBy_def keyBy_from_dom)

lemma load_file_parsed: "load_file p f = Inr data \<Longrightarrow> parsed f = Inr data"
  by (auto simp: load_file_def split: if_splits option.splits sum.splits)

lemma load_all_tables:
  "\<forall>q\<in>set ps. endsWith q ''.csv'' \<Longrightarrow> distinct (map getFilename ps) \<Longrightarrow>
   load_all fs ps st0 = Inr st \<Longrightarrow>
   (\<forall>p\<in>set ps. \<exists>data. load_file p (fs p) = Inr data \<and> files st (getFilename p) = Some data \<and>
        db st (getFilename p) = Some (keyBy data (key_field (getFilename p))))
   \<and> (\<forall>n. n \<notin> getFilename ` set ps \<longrightarrow> files st n = files st0 n \<and> db st n = db st0 n)"
proof (induction ps arbitrary: st0)
  case Nil
  then show ?case by simp
next
  case (Cons a ps)
  from Cons.prems obtain data where d: "load_file a (fs a) = Inr data"
    by (cases "load_file a (fs a)") auto
  define st1 where "st1 = st0\<lparr>db := (db st0)(getFilename a \<mapsto> keyBy data (key_field (getFilename a))),
                         files := (files st0)(getFilename a \<mapsto> data)\<rparr>"
  from Cons.prems d have l: "load_all fs ps st1 = Inr st" by (simp add: st1_def Let_def)
  from Cons.prems have c: "\<forall>q\<in>set ps. endsWith q ''.csv''" and di: "distinct (map getFilename ps)"
    and na: "getFilename a \<notin> getFilename ` set ps" by auto
  note ih = Cons.IH [OF c di l]
  from ih na have "files st (getFilename a) = Some data \<and>
        db st (getFilename a) = Some (keyBy data (key_field (getFilename a)))"
    by (simp add: st1_def)
  moreover from ih have "\<forall>n. n \<notin> getFilename ` set (a # ps) \<longrightarrow>
      files st n = files st0 n \<and> db st n = db st0 n"
    by (simp add: st1_def)
  ultimately show ?case using ih d by simp
qed

lemma allFiles_distinct: "distinct (map getFilename allFiles)"
  by code_simp

lemma table_names_allFiles: "map getFilename allFiles = table_names"
  by code_simp

text \<open>After Phase 1 every table with a scheme has its rows and its index, so the
  branches of \<open>found\<close> and \<open>validate_file\<close> for a missing table are never taken in a
  run.\<close>

lemma phase2_tables_defined:
  assumes "load_all fs allFiles init = Inr st" and "has_scheme n"
  shows "files st n \<noteq> None \<and> db st n \<noteq> None"
proof -
  from assms(2) have "n \<in> getFilename ` set allFiles"
    using table_names_allFiles by (metis has_scheme_def set_map)
  then obtain p where "p \<in> set allFiles" "n = getFilename p" by blast
  with load_all_tables [OF allFiles_csv allFiles_distinct assms(1)] show ?thesis by force
qed

lemma keyBy_from_Some:
  "keyBy_from i key rs m k = Some n \<longleftrightarrow>
     (\<exists>j<length rs. n = i + j \<and> key (rs ! j) = k \<and> k \<notin> key ` set (drop (Suc j) rs)) \<or>
     (k \<notin> key ` set rs \<and> m k = Some n)"
proof (induction rs arbitrary: i m)
  case Nil
  then show ?case by simp
next
  case (Cons r rs)
  have "keyBy_from i key (r # rs) m k = Some n \<longleftrightarrow>
      (\<exists>j<length rs. n = Suc i + j \<and> key (rs ! j) = k \<and> k \<notin> key ` set (drop (Suc j) rs)) \<or>
      (k \<notin> key ` set rs \<and> (m(key r \<mapsto> i)) k = Some n)"
    unfolding keyBy_from.simps by (rule Cons.IH)
  also have "\<dots> \<longleftrightarrow>
      (\<exists>j<length (r # rs). n = i + j \<and> key ((r # rs) ! j) = k \<and>
          k \<notin> key ` set (drop (Suc j) (r # rs))) \<or>
      (k \<notin> key ` set (r # rs) \<and> m k = Some n)"
    (is "?A \<or> ?B \<longleftrightarrow> ?C \<or> ?D")
  proof -
    have c: "?C \<longleftrightarrow> (n = i \<and> key r = k \<and> k \<notin> key ` set rs) \<or> ?A"
    proof
      assume ?C
      then obtain j where j: "j < length (r # rs)" "n = i + j" "key ((r # rs) ! j) = k"
        "k \<notin> key ` set (drop (Suc j) (r # rs))" by blast
      show "(n = i \<and> key r = k \<and> k \<notin> key ` set rs) \<or> ?A"
      proof (cases j)
        case 0
        with j show ?thesis by simp
      next
        case (Suc j')
        with j have "j' < length rs \<and> n = Suc i + j' \<and> key (rs ! j') = k \<and>
            k \<notin> key ` set (drop (Suc j') rs)" by simp
        then show ?thesis by blast
      qed
    next
      assume "(n = i \<and> key r = k \<and> k \<notin> key ` set rs) \<or> ?A"
      then show ?C
      proof
        assume "n = i \<and> key r = k \<and> k \<notin> key ` set rs"
        then show ?C by (intro exI [of _ 0]) simp
      next
        assume ?A
        then obtain j where "j < length rs" "n = Suc i + j" "key (rs ! j) = k"
          "k \<notin> key ` set (drop (Suc j) rs)" by blast
        then show ?C by (intro exI [of _ "Suc j"]) simp
      qed
    qed
    show ?thesis unfolding c by auto
  qed
  finally show ?case .
qed

text \<open>
  The index keeps, for a key, the last row that has it: \<^verbatim>\<open>_.keyBy\<close> enters the rows in
  order, and a later row replaces an earlier one.
\<close>

theorem keyBy_last_wins:
  "keyBy data key k = Some n \<longleftrightarrow>
     n < length data \<and> key (data ! n) = k \<and> k \<notin> key ` set (drop (Suc n) data)"
  by (auto simp: keyBy_def keyBy_from_Some)

text \<open>
  Claim C2, as the code has it. Phase 1 indexes every table, channels included, by the
  key column as parsed: the keys of a table's index are the keys of its rows, and the
  key of a channels row is its id, not lower-cased. The blocklist check and the
  \<open>replaced_by\<close> check look the referring value up as it is written, so they pass
  exactly when it is the id of a channels row in the same case (or a name every object
  inherits).
\<close>

theorem index_keys_verbatim:
  assumes "load_all fs allFiles init = Inr st"
  shows "(\<forall>p\<in>set allFiles. \<exists>data idx.
            parsed (fs p) = Inr data \<and> files st (getFilename p) = Some data \<and>
            db st (getFilename p) = Some idx \<and> dom idx = key_field (getFilename p) ` set data)
   \<and> key_field ''channels'' = row_id
   \<and> (\<exists>data. parsed (fs ''data/channels.csv'') = Inr data \<and>
         (\<forall>k. found st ''channels'' k \<longleftrightarrow> k \<in> row_id ` set data \<or> k \<in> set object_prototype))
   \<and> (\<forall>row i. validateChannelId st row i = [] \<longleftrightarrow> found st ''channels'' (channel row))
   \<and> (\<forall>row i. validateChannelReplacedBy st row i = [] \<longleftrightarrow>
         (truthy (replaced_by row) \<longrightarrow> found st ''channels'' (text_of (replaced_by row))))"
proof -
  note t = load_all_tables [OF allFiles_csv allFiles_distinct assms]
  have 1: "\<forall>p\<in>set allFiles. \<exists>data idx.
            parsed (fs p) = Inr data \<and> files st (getFilename p) = Some data \<and>
            db st (getFilename p) = Some idx \<and> dom idx = key_field (getFilename p) ` set data"
  proof
    fix p assume "p \<in> set allFiles"
    with t obtain data where "load_file p (fs p) = Inr data" "files st (getFilename p) = Some data"
      "db st (getFilename p) = Some (keyBy data (key_field (getFilename p)))" by blast
    then show "\<exists>data idx.
            parsed (fs p) = Inr data \<and> files st (getFilename p) = Some data \<and>
            db st (getFilename p) = Some idx \<and> dom idx = key_field (getFilename p) ` set data"
      using keyBy_dom load_file_parsed by blast
  qed
  have 2: "key_field ''channels'' = row_id" by (simp add: key_field_def)
  have c: "''data/channels.csv'' \<in> set allFiles" "getFilename ''data/channels.csv'' = ''channels''"
    by code_simp+
  from 1 c 2 obtain data idx where d: "parsed (fs ''data/channels.csv'') = Inr data"
    "db st ''channels'' = Some idx" "dom idx = row_id ` set data" by force
  have "\<forall>k. found st ''channels'' k \<longleftrightarrow> k \<in> row_id ` set data \<or> k \<in> set object_prototype"
    using d(2,3) by (auto simp: found_def dom_def)
  with d(1) have 3: "\<exists>data. parsed (fs ''data/channels.csv'') = Inr data \<and>
         (\<forall>k. found st ''channels'' k \<longleftrightarrow> k \<in> row_id ` set data \<or> k \<in> set object_prototype)"
    by blast
  have 4: "\<forall>row i. validateChannelId st row i = [] \<longleftrightarrow> found st ''channels'' (channel row)"
    by (simp add: validateChannelId_def)
  have 5: "\<forall>row i. validateChannelReplacedBy st row i = [] \<longleftrightarrow>
         (truthy (replaced_by row) \<longrightarrow> found st ''channels'' (text_of (replaced_by row)))"
    by (simp add: validateChannelReplacedBy_def)
  from 1 2 3 4 5 show ?thesis by blast
qed

theorem index_keys_verbatim_witness:
  "load_all blocked allFiles init = Inr (loaded blocked)
   \<and> parsed (blocked ''data/channels.csv'') = Inr [bbc]
   \<and> found (loaded blocked) ''channels'' ''BBCOne.uk''
   \<and> \<not> found (loaded blocked) ''channels'' ''bbcone.uk''
   \<and> validateChannelId (loaded blocked) (blank\<lparr>channel := ''bbcone.uk''\<rparr>) 0 \<noteq> []
   \<and> validateChannelId (loaded blocked) (blank\<lparr>channel := ''BBCOne.uk''\<rparr>) 0 = []"
proof -
  have "\<not> isl (load_all blocked allFiles init)" by code_simp
  then have h: "load_all blocked allFiles init = Inr (loaded blocked)" by (rule loaded_Inr)
  have p: "parsed (blocked ''data/channels.csv'') = Inr [bbc]" by code_simp
  have b: "row_id bbc = ''BBCOne.uk''" "''bbcone.uk'' \<notin> set object_prototype"
    "channel (blank\<lparr>channel := ''bbcone.uk''\<rparr>) = ''bbcone.uk''"
    "channel (blank\<lparr>channel := ''BBCOne.uk''\<rparr>) = ''BBCOne.uk''" by code_simp+
  note t = index_keys_verbatim [OF h]
  from t p have f: "\<forall>k. found (loaded blocked) ''channels'' k \<longleftrightarrow>
      k \<in> row_id ` set [bbc] \<or> k \<in> set object_prototype" by auto
  from f b have 1: "found (loaded blocked) ''channels'' ''BBCOne.uk''"
    and 2: "\<not> found (loaded blocked) ''channels'' ''bbcone.uk''" by simp_all
  from t have v: "\<forall>row i. validateChannelId (loaded blocked) row i = [] \<longleftrightarrow>
      found (loaded blocked) ''channels'' (channel row)" by blast
  from v 1 2 b have "validateChannelId (loaded blocked) (blank\<lparr>channel := ''bbcone.uk''\<rparr>) 0 \<noteq> []"
    "validateChannelId (loaded blocked) (blank\<lparr>channel := ''BBCOne.uk''\<rparr>) 0 = []" by simp_all
  with h p 1 2 show ?thesis by blast
qed

text \<open>
  Claim C2 as stated fails: the channels index of the dataset has the key
  \<^verbatim>\<open>BBCOne.uk\<close> and no key \<^verbatim>\<open>bbcone.uk\<close>, and a blocklist row that names the
  channel in lower case is reported as missing.
\<close>

theorem index_lower_case_counterexample:
  "map_option (map row_id) (files (loaded blocked) ''channels'') = Some [''BBCOne.uk'']
   \<and> index_entry (loaded blocked) ''channels'' ''BBCOne.uk'' = Some 0
   \<and> index_entry (loaded blocked) ''channels'' ''bbcone.uk'' = None
   \<and> main no_schema [''data/blocklist.csv''] blocked =
       \<lparr>reports = [(''data/blocklist.csv'',
                    [\<lparr>line = 2, message = ''\"bbcone.uk\" is missing in the channels.csv''\<rparr>])],
        fatal = Some (ErrorCount 1)\<rparr>"
  by code_simp

subsection \<open>The broadcast-area rule\<close>

lemma found_loaded:
  assumes "load_all fs allFiles init = Inr st" and "p \<in> set allFiles"
    and "parsed (fs p) = Inr data"
  shows "found st (getFilename p) k \<longleftrightarrow>
           k \<in> key_field (getFilename p) ` set data \<or> k \<in> set object_prototype"
proof -
  from load_all_tables [OF allFiles_csv allFiles_distinct assms(1)] assms(2)
  obtain d where d: "load_file p (fs p) = Inr d"
    "db st (getFilename p) = Some (keyBy d (key_field (getFilename p)))" by blast
  from d(1) assms(3) have "d = data" using load_file_parsed by fastforce
  with d(2) have "db st (getFilename p) = Some (keyBy data (key_field (getFilename p)))" by simp
  moreover have "keyBy data (key_field (getFilename p)) k \<noteq> None \<longleftrightarrow>
      k \<in> key_field (getFilename p) ` set data"
    using keyBy_dom [of data "key_field (getFilename p)"] by (auto simp: dom_def)
  ultimately show ?thesis by (simp add: found_def)
qed

lemma found_code_tables:
  assumes "load_all fs allFiles init = Inr st"
  shows "parsed (fs ''data/regions.csv'') = Inr rs \<Longrightarrow>
           found st ''regions'' k \<longleftrightarrow> k \<in> code ` set rs \<or> k \<in> set object_prototype"
    and "parsed (fs ''data/countries.csv'') = Inr cs \<Longrightarrow>
           found st ''countries'' k \<longleftrightarrow> k \<in> code ` set cs \<or> k \<in> set object_prototype"
    and "parsed (fs ''data/subdivisions.csv'') = Inr ss \<Longrightarrow>
           found st ''subdivisions'' k \<longleftrightarrow> k \<in> code ` set ss \<or> k \<in> set object_prototype"
proof -
  have n: "getFilename ''data/regions.csv'' = ''regions''"
    "getFilename ''data/countries.csv'' = ''countries''"
    "getFilename ''data/subdivisions.csv'' = ''subdivisions''"
    "''data/regions.csv'' \<in> set allFiles" "''data/countries.csv'' \<in> set allFiles"
    "''data/subdivisions.csv'' \<in> set allFiles" by code_simp+
  have kf: "key_field ''regions'' = code" "key_field ''countries'' = code"
    "key_field ''subdivisions'' = code" by (simp_all add: key_field_def)
  show "parsed (fs ''data/regions.csv'') = Inr rs \<Longrightarrow>
           found st ''regions'' k \<longleftrightarrow> k \<in> code ` set rs \<or> k \<in> set object_prototype"
    using found_loaded [OF assms n(4), of rs k] by (simp only: n kf)
  show "parsed (fs ''data/countries.csv'') = Inr cs \<Longrightarrow>
           found st ''countries'' k \<longleftrightarrow> k \<in> code ` set cs \<or> k \<in> set object_prototype"
    using found_loaded [OF assms n(5), of cs k] by (simp only: n kf)
  show "parsed (fs ''data/subdivisions.csv'') = Inr ss \<Longrightarrow>
           found st ''subdivisions'' k \<longleftrightarrow> k \<in> code ` set ss \<or> k \<in> set object_prototype"
    using found_loaded [OF assms n(6), of ss k] by (simp only: n kf)
qed

text \<open>
  Claim C4, as the code has it. For every channels row, the errors of
  \<^verbatim>\<open>validateChannelBroadcastArea\<close> are those of the elements of \<open>broadcast_area\<close>, in
  order. An element is split on the slash into a type and a code (\<open>t/c\<close> gives the
  type \<open>t\<close> and the code \<open>c\<close>). With the type \<^verbatim>\<open>r\<close> the code is looked up in the
  regions index, with \<^verbatim>\<open>c\<close> in the countries index, with \<^verbatim>\<open>s\<close> in the subdivisions
  index. A code that is neither the code of a row of that table nor a name every object
  inherits gives exactly one error, at the row's line, with the message
  \<^verbatim>\<open>"<id>" has the wrong broadcast_area "<element>"\<close>; a code that is an inherited name
  gives no error, like a code of the table. An element of any other type gives no
  error.
\<close>

theorem broadcast_area_checked:
  assumes "load_all fs allFiles init = Inr st"
    and "parsed (fs ''data/regions.csv'') = Inr rs"
    and "parsed (fs ''data/countries.csv'') = Inr cs"
    and "parsed (fs ''data/subdivisions.csv'') = Inr ss"
  shows "validateChannelBroadcastArea st row i =
     concat (map (\<lambda>area.
        if area_type area = ''r'' then
          (if area_code area \<in> code ` set rs \<or> area_code area \<in> set object_prototype then []
           else [\<lparr>line = i + 2,
                  message = ''\"'' @ row_id row @ ''\" has the wrong broadcast_area \"'' @ area @ ''\"''\<rparr>])
        else if area_type area = ''c'' then
          (if area_code area \<in> code ` set cs \<or> area_code area \<in> set object_prototype then []
           else [\<lparr>line = i + 2,
                  message = ''\"'' @ row_id row @ ''\" has the wrong broadcast_area \"'' @ area @ ''\"''\<rparr>])
        else if area_type area = ''s'' then
          (if area_code area \<in> code ` set ss \<or> area_code area \<in> set object_prototype then []
           else [\<lparr>line = i + 2,
                  message = ''\"'' @ row_id row @ ''\" has the wrong broadcast_area \"'' @ area @ ''\"''\<rparr>])
        else []) (broadcast_area row))
   \<and> (CHR ''/'' \<notin> set t \<and> CHR ''/'' \<notin> set c \<longrightarrow>
        area_type (t @ ''/'' @ c) = t \<and> area_code (t @ ''/'' @ c) = c)"
proof -
  note f = found_code_tables [OF assms(1)]
  have "fold (\<lambda>area errors.
             if (area_type area = ''r'' \<and> \<not> found st ''regions'' (area_code area)) \<or>
                (area_type area = ''c'' \<and> \<not> found st ''countries'' (area_code area)) \<or>
                (area_type area = ''s'' \<and> \<not> found st ''subdivisions'' (area_code area))
             then errors @ [\<lparr>line = i + 2, message = wrong (row_id row) ''broadcast_area'' area\<rparr>]
             else errors) xs acc = acc @
     concat (map (\<lambda>area.
        if area_type area = ''r'' then
          (if area_code area \<in> code ` set rs \<or> area_code area \<in> set object_prototype then []
           else [\<lparr>line = i + 2,
                  message = ''\"'' @ row_id row @ ''\" has the wrong broadcast_area \"'' @ area @ ''\"''\<rparr>])
        else if area_type area = ''c'' then
          (if area_code area \<in> code ` set cs \<or> area_code area \<in> set object_prototype then []
           else [\<lparr>line = i + 2,
                  message = ''\"'' @ row_id row @ ''\" has the wrong broadcast_area \"'' @ area @ ''\"''\<rparr>])
        else if area_type area = ''s'' then
          (if area_code area \<in> code ` set ss \<or> area_code area \<in> set object_prototype then []
           else [\<lparr>line = i + 2,
                  message = ''\"'' @ row_id row @ ''\" has the wrong broadcast_area \"'' @ area @ ''\"''\<rparr>])
        else []) xs)" for xs acc
    by (induction xs arbitrary: acc)
      (simp_all add: f(1) [OF assms(2)] f(2) [OF assms(3)] f(3) [OF assms(4)] wrong_def)
  then show ?thesis
    by (simp add: validateChannelBroadcastArea_def area_type_split area_code_split)
qed

theorem broadcast_area_checked_witness:
  "load_all dataset allFiles init = Inr (loaded dataset)
   \<and> parsed (dataset ''data/regions.csv'') = Inr []
   \<and> parsed (dataset ''data/countries.csv'') = Inr [blank\<lparr>code := ''UK'', lang := ''eng''\<rparr>]
   \<and> parsed (dataset ''data/subdivisions.csv'') = Inr []
   \<and> validateChannelBroadcastArea (loaded dataset)
       (bbc\<lparr>broadcast_area := [''c/UK'', ''c/ZZ'', ''x/ZZ'', ''r/EU'', ''c/toString'']\<rparr>) 0 =
     [\<lparr>line = 2, message = ''\"BBCOne.uk\" has the wrong broadcast_area \"c/ZZ\"''\<rparr>,
      \<lparr>line = 2, message = ''\"BBCOne.uk\" has the wrong broadcast_area \"r/EU\"''\<rparr>]
   \<and> CHR ''/'' \<notin> set ''c'' \<and> CHR ''/'' \<notin> set ''ZZ''
   \<and> area_type ''c/ZZ'' = ''c'' \<and> area_code ''c/ZZ'' = ''ZZ''"
proof -
  have "\<not> isl (load_all dataset allFiles init)" by code_simp
  then have h1: "load_all dataset allFiles init = Inr (loaded dataset)" by (rule loaded_Inr)
  have h2: "parsed (dataset ''data/regions.csv'') = Inr []" by code_simp
  have h3: "parsed (dataset ''data/countries.csv'') = Inr [blank\<lparr>code := ''UK'', lang := ''eng''\<rparr>]"
    by code_simp
  have h4: "parsed (dataset ''data/subdivisions.csv'') = Inr []" by code_simp
  have s: "CHR ''/'' \<notin> set ''c'' \<and> CHR ''/'' \<notin> set ''ZZ''" by simp
  note t = broadcast_area_checked [OF h1 h2 h3 h4,
      of "bbc\<lparr>broadcast_area := [''c/UK'', ''c/ZZ'', ''x/ZZ'', ''r/EU'', ''c/toString'']\<rparr>" 0
         "''c''" "''ZZ''"]
  have v: "validateChannelBroadcastArea (loaded dataset)
       (bbc\<lparr>broadcast_area := [''c/UK'', ''c/ZZ'', ''x/ZZ'', ''r/EU'', ''c/toString'']\<rparr>) 0 =
     [\<lparr>line = 2, message = ''\"BBCOne.uk\" has the wrong broadcast_area \"c/ZZ\"''\<rparr>,
      \<lparr>line = 2, message = ''\"BBCOne.uk\" has the wrong broadcast_area \"r/EU\"''\<rparr>]"
    by (subst t [THEN conjunct1]) code_simp
  from t s have a: "area_type ''c/ZZ'' = ''c'' \<and> area_code ''c/ZZ'' = ''ZZ''" by simp
  from h1 h2 h3 h4 v s a show ?thesis by blast
qed

text \<open>
  Claim C4 as stated fails: the countries index has no key \<^verbatim>\<open>constructor\<close>, yet the
  element \<^verbatim>\<open>c/constructor\<close> gives no error, and the run ends with status 0.
\<close>

theorem broadcast_area_inherited_counterexample:
  "parsed (inherited ''data/countries.csv'') = Inr [blank\<lparr>code := ''UK'', lang := ''eng''\<rparr>]
   \<and> index_entry (loaded inherited) ''countries'' ''constructor'' = None
   \<and> area_type ''c/constructor'' = ''c'' \<and> area_code ''c/constructor'' = ''constructor''
   \<and> map_option (map broadcast_area) (files (loaded inherited) ''channels'') =
       Some [[''c/constructor'']]
   \<and> validateChannelBroadcastArea (loaded inherited)
       (bbc\<lparr>categories := [''kids''], broadcast_area := [''c/constructor'']\<rparr>) 0 = []
   \<and> main no_schema [] inherited = \<lparr>reports = [], fatal = None\<rparr>"
  by code_simp

subsection \<open>Duplicate ids\<close>

lemma list_ex_key: "list_ex (\<lambda>r. f r = f x) records \<longleftrightarrow> f x \<in> f ` set records"
proof
  assume "list_ex (\<lambda>r. f r = f x) records"
  then obtain r where "r \<in> set records" "f r = f x" by (auto simp: list_ex_iff)
  then show "f x \<in> f ` set records" by (metis imageI)
next
  assume "f x \<in> f ` set records"
  then obtain r where "r \<in> set records" "f x = f r" by blast
  then show "list_ex (\<lambda>r. f r = f x) records" by (auto simp: list_ex_iff)
qed

lemma unique_from_length: "length (unique_from comparator records i items) \<le> 1"
  by (induction items arbitrary: records i) simp_all

lemma unique_from_Nil:
  "unique_from (\<lambda>a b. f a = f b) records i items = [] \<longleftrightarrow>
     distinct (map f items) \<and> f ` set items \<inter> f ` set records = {}"
proof (induction items arbitrary: records i)
  case Nil
  then show ?case by simp
next
  case (Cons x items)
  show ?case
  proof (cases "f x \<in> f ` set records")
    case True
    then have "list_ex (\<lambda>r. f r = f x) records" by (simp add: list_ex_key)
    with True show ?thesis by auto
  next
    case False
    then have "\<not> list_ex (\<lambda>r. f r = f x) records" by (simp add: list_ex_key)
    with False Cons.IH [of "records @ [x]" "Suc i"] show ?thesis by auto
  qed
qed

lemma unique_from_first:
  "(p, v) \<in> set (unique_from (\<lambda>a b. f a = f b) records i items) \<Longrightarrow>
   \<exists>k<length items. p = i + k \<and> v = items ! k \<and>
      f (items ! k) \<in> f ` (set records \<union> set (take k items)) \<and>
      distinct (map f (take k items)) \<and> f ` set (take k items) \<inter> f ` set records = {}"
proof (induction items arbitrary: records i)
  case Nil
  then show ?case by simp
next
  case (Cons x items)
  show ?case
  proof (cases "list_ex (\<lambda>r. f r = f x) records")
    case True
    with Cons.prems have "p = i" "v = x" by simp_all
    moreover from True have "f x \<in> f ` set records" by (simp add: list_ex_key)
    ultimately show ?thesis by (intro exI [of _ 0]) simp
  next
    case False
    then have nx: "f x \<notin> f ` set records" by (simp add: list_ex_key)
    from False Cons.prems
    have "(p, v) \<in> set (unique_from (\<lambda>a b. f a = f b) (records @ [x]) (Suc i) items)" by simp
    from Cons.IH [OF this] obtain k where k: "k < length items" "p = Suc i + k" "v = items ! k"
      "f (items ! k) \<in> f ` (set (records @ [x]) \<union> set (take k items))"
      "distinct (map f (take k items))"
      "f ` set (take k items) \<inter> f ` set (records @ [x]) = {}" by blast
    from k nx show ?thesis
      by (intro exI [of _ "Suc k"]) auto
  qed
qed

text \<open>
  What the duplicate detector reports: at most one error; none exactly when the ids
  are distinct up to case; and an error is for the first row whose lower-cased id is
  that of an earlier row, at the line of that row (position + 2), naming the
  lower-cased id.
\<close>

theorem duplicates_reported:
  "length (snd (findDuplicatesById rows)) \<le> 1
   \<and> (snd (findDuplicatesById rows) = [] \<longleftrightarrow> distinct (map (\<lambda>r. toLowerCase (row_id r)) rows))
   \<and> (\<forall>e\<in>set (snd (findDuplicatesById rows)).
        \<exists>p<length rows.
          line e = p + 2 \<and>
          message e = ''entry with the id \"'' @ toLowerCase (row_id (rows ! p)) @ ''\" already exists'' \<and>
          toLowerCase (row_id (rows ! p)) \<in> (\<lambda>r. toLowerCase (row_id r)) ` set (take p rows) \<and>
          distinct (map (\<lambda>r. toLowerCase (row_id r)) (take p rows)))"
proof -
  let ?low = "map (\<lambda>row. row\<lparr>row_id := toLowerCase (row_id row)\<rparr>) rows"
  let ?d = "unique_from (\<lambda>a b. row_id a = row_id b) [] 0 ?low"
  have len: "length ?d \<le> 1" by (rule unique_from_length)
  have shape: "snd (findDuplicatesById rows) =
      map (\<lambda>(pos, v). \<lparr>line = pos + 2,
             message = ''entry with the id \"'' @ row_id v @ ''\" already exists''\<rparr>) ?d"
  proof -
    have "fold (\<lambda>(pos, v) errors. errors @ [g pos v]) ds acc = acc @ map (\<lambda>(pos, v). g pos v) ds"
      for g :: "nat \<Rightarrow> row \<Rightarrow> verror" and ds acc
      by (induction ds arbitrary: acc) auto
    then show ?thesis
      by (simp add: findDuplicatesById_def array_unique_def Let_def)
  qed
  have m: "map row_id ?low = map (\<lambda>r. toLowerCase (row_id r)) rows" by (simp add: comp_def)
  have 1: "length (snd (findDuplicatesById rows)) \<le> 1" using len shape by simp
  have 2: "snd (findDuplicatesById rows) = [] \<longleftrightarrow> distinct (map (\<lambda>r. toLowerCase (row_id r)) rows)"
    using unique_from_Nil [of row_id "[]" 0 ?low] shape m by (simp add: comp_def)
  have 3: "\<forall>e\<in>set (snd (findDuplicatesById rows)).
        \<exists>p<length rows.
          line e = p + 2 \<and>
          message e = ''entry with the id \"'' @ toLowerCase (row_id (rows ! p)) @ ''\" already exists'' \<and>
          toLowerCase (row_id (rows ! p)) \<in> (\<lambda>r. toLowerCase (row_id r)) ` set (take p rows) \<and>
          distinct (map (\<lambda>r. toLowerCase (row_id r)) (take p rows))"
  proof
    fix e assume "e \<in> set (snd (findDuplicatesById rows))"
    with shape obtain pos v where pv: "(pos, v) \<in> set ?d"
      and e: "e = \<lparr>line = pos + 2, message = ''entry with the id \"'' @ row_id v @ ''\" already exists''\<rparr>"
      by auto
    from unique_from_first [OF pv] obtain k where k: "k < length ?low" "pos = 0 + k" "v = ?low ! k"
      "row_id (?low ! k) \<in> row_id ` (set [] \<union> set (take k ?low))"
      "distinct (map row_id (take k ?low))" by blast
    from k(1) have kl: "k < length rows" by simp
    have tk: "map row_id (take k ?low) = map (\<lambda>r. toLowerCase (row_id r)) (take k rows)"
      by (simp add: take_map comp_def)
    from k(4) have "row_id (?low ! k) \<in> set (map row_id (take k ?low))" by simp
    with tk kl have mem: "toLowerCase (row_id (rows ! k)) \<in> (\<lambda>r. toLowerCase (row_id r)) ` set (take k rows)"
      by simp
    from k(5) tk have dis: "distinct (map (\<lambda>r. toLowerCase (row_id r)) (take k rows))" by simp
    from e k(2,3) kl have "line e = k + 2"
      "message e = ''entry with the id \"'' @ toLowerCase (row_id (rows ! k)) @ ''\" already exists''"
      by simp_all
    with kl mem dis show "\<exists>p<length rows.
          line e = p + 2 \<and>
          message e = ''entry with the id \"'' @ toLowerCase (row_id (rows ! p)) @ ''\" already exists'' \<and>
          toLowerCase (row_id (rows ! p)) \<in> (\<lambda>r. toLowerCase (row_id r)) ` set (take p rows) \<and>
          distinct (map (\<lambda>r. toLowerCase (row_id r)) (take p rows))" by blast
  qed
  from 1 2 3 show ?thesis by blast
qed

theorem duplicates_reported_witness:
  "\<lparr>line = 3, message = ''entry with the id \"one.uk\" already exists''\<rparr>
      \<in> set (snd (findDuplicatesById pairs))
   \<and> length (snd (findDuplicatesById pairs)) \<le> 1
   \<and> \<not> distinct (map (\<lambda>r. toLowerCase (row_id r)) pairs)
   \<and> snd (findDuplicatesById pairs) \<noteq> []
   \<and> (\<exists>p<length pairs.
        line \<lparr>line = 3, message = ''entry with the id \"one.uk\" already exists''\<rparr> = p + 2 \<and>
        message \<lparr>line = 3, message = ''entry with the id \"one.uk\" already exists''\<rparr> =
          ''entry with the id \"'' @ toLowerCase (row_id (pairs ! p)) @ ''\" already exists'' \<and>
        toLowerCase (row_id (pairs ! p)) \<in> (\<lambda>r. toLowerCase (row_id r)) ` set (take p pairs) \<and>
        distinct (map (\<lambda>r. toLowerCase (row_id r)) (take p pairs)))"
proof -
  have m: "\<lparr>line = 3, message = ''entry with the id \"one.uk\" already exists''\<rparr>
      \<in> set (snd (findDuplicatesById pairs))" by code_simp
  have d: "\<not> distinct (map (\<lambda>r. toLowerCase (row_id r)) pairs)" by code_simp
  note t = duplicates_reported [of pairs]
  from t have 1: "length (snd (findDuplicatesById pairs)) \<le> 1" by blast
  from t d have 2: "snd (findDuplicatesById pairs) \<noteq> []" by blast
  from t m have 3: "\<exists>p<length pairs.
        line \<lparr>line = 3, message = ''entry with the id \"one.uk\" already exists''\<rparr> = p + 2 \<and>
        message \<lparr>line = 3, message = ''entry with the id \"one.uk\" already exists''\<rparr> =
          ''entry with the id \"'' @ toLowerCase (row_id (pairs ! p)) @ ''\" already exists'' \<and>
        toLowerCase (row_id (pairs ! p)) \<in> (\<lambda>r. toLowerCase (row_id r)) ` set (take p pairs) \<and>
        distinct (map (\<lambda>r. toLowerCase (row_id r)) (take p pairs))" by blast
  from m d 1 2 3 show ?thesis by blast
qed

text \<open>
  Claim C3 on four rows whose ids collide in pairs (rows 1 and 3 repeat rows 0 and 2
  up to case): the detector returns one error, for row 1, and none for row 3.
\<close>

theorem duplicates_first_only:
  "map row_id pairs = [''One.uk'', ''one.uk'', ''Two.uk'', ''two.uk'']
   \<and> snd (findDuplicatesById pairs) =
       [\<lparr>line = 3, message = ''entry with the id \"one.uk\" already exists''\<rparr>]"
  by code_simp

subsection \<open>Counting columns\<close>

lemma quotes_Cons: "quotes (c # cs) = (if c = CHR 0x22 then Suc (quotes cs) else quotes cs)"
  by (simp add: quotes_def)

lemma quotes_append: "quotes (u @ v) = quotes u + quotes v"
  by (induction u) (simp_all add: quotes_def)

lemma split_unquoted_count:
  "inside = odd (quotes s) \<Longrightarrow> length (split_unquoted cur s) = Suc (unquoted_commas inside s)"
proof (induction s arbitrary: cur inside)
  case Nil
  then show ?case by simp
next
  case (Cons c cs)
  show ?case
  proof (cases "c = CHR 0x22")
    case True
    with Cons.prems have "(\<not> inside) = odd (quotes cs)" by (simp add: quotes_Cons)
    from Cons.IH [OF this] True show ?thesis by simp
  next
    case False
    with Cons.prems have "inside = odd (quotes cs)" by (simp add: quotes_Cons)
    from Cons.IH [OF this] this False show ?thesis by simp
  qed
qed

lemma quotes_Nil: "quotes [] = 0"
  by (simp add: quotes_def)

lemma unquoted_commas_append:
  "unquoted_commas inside (u @ v) =
     unquoted_commas inside u +
     unquoted_commas (if odd (quotes u) then \<not> inside else inside) v"
proof (induction u arbitrary: inside)
  case Nil
  then show ?case by (simp add: quotes_Nil)
next
  case (Cons c u)
  show ?case
    by (cases "odd (quotes u)") (simp_all add: Cons.IH quotes_Cons)
qed

lemma first_bad_row_None:
  "first_bad_row n i ls = None \<longleftrightarrow> (\<forall>l\<in>set ls. length (split_unquoted [] l) = n)"
  by (induction ls arbitrary: i) auto

lemma split_char_length: "length (split_char d cur s) = Suc (count_list s d)"
  by (induction s arbitrary: cur) auto

lemma split_unquoted_plain: "quotes h = 0 \<Longrightarrow> split_unquoted cur h = split_char (CHR '','') cur h"
  by (induction h arbitrary: cur) (auto simp: quotes_Cons split: if_splits)

text \<open>
  How the check counts columns. For a line with balanced double quotes (an even number
  of them) the pieces of the check's split are one more than the commas outside quotes;
  a comma put inside a pair of quotes does not change the count, and a line whose commas
  are all inside quotes is one column. The check passes exactly when every line has as
  many pieces as \<^verbatim>\<open>rows[0].split(',')\<close> has, one more than the commas of the header,
  which for a header without double quotes is its quote-aware count.
\<close>

theorem column_count_respects_quotes:
  "(even (quotes l) \<longrightarrow> length (split_unquoted [] l) = Suc (unquoted_commas False l))
   \<and> (even (quotes (u @ v)) \<and> odd (quotes u) \<longrightarrow>
        length (split_unquoted [] (u @ '','' @ v)) = length (split_unquoted [] (u @ v)))
   \<and> (even (quotes l) \<and> unquoted_commas False l = 0 \<longrightarrow> length (split_unquoted [] l) = 1)
   \<and> (check_columns s = None \<longleftrightarrow>
        (\<forall>l\<in>set (split_crlf [] s).
           length (split_unquoted [] l) =
           length (split_char (CHR '','') [] (hd (split_crlf [] s)))))
   \<and> length (split_char (CHR '','') [] h) = Suc (count_list h (CHR '',''))
   \<and> (quotes h = 0 \<longrightarrow>
        length (split_unquoted [] h) = length (split_char (CHR '','') [] h))"
proof (intro conjI impI)
  show 1: "length (split_unquoted [] l) = Suc (unquoted_commas False l)" if "even (quotes l)" for l
    using that by (simp add: split_unquoted_count)
  show "length (split_unquoted [] (u @ '','' @ v)) = length (split_unquoted [] (u @ v))"
    if a: "even (quotes (u @ v)) \<and> odd (quotes u)"
  proof -
    from a have e: "even (quotes (u @ '','' @ v))" by (simp add: quotes_append quotes_Cons)
    from a have "unquoted_commas False (u @ '','' @ v) = unquoted_commas False (u @ v)"
      by (simp add: unquoted_commas_append)
    with 1 [OF e] 1 [of "u @ v"] a show ?thesis by simp
  qed
  show "length (split_unquoted [] l) = 1" if "even (quotes l) \<and> unquoted_commas False l = 0"
    using that 1 [of l] by simp
  show "check_columns s = None \<longleftrightarrow>
        (\<forall>l\<in>set (split_crlf [] s).
           length (split_unquoted [] l) =
           length (split_char (CHR '','') [] (hd (split_crlf [] s))))"
    by (simp add: check_columns_def Let_def first_bad_row_None)
  show "length (split_char (CHR '','') [] h) = Suc (count_list h (CHR '',''))"
    by (rule split_char_length)
  show "length (split_unquoted [] h) = length (split_char (CHR '','') [] h)" if "quotes h = 0"
    using that by (simp add: split_unquoted_plain)
qed

theorem column_count_respects_quotes_witness:
  "even (quotes ''BBC,\"One, Two\",uk'')
   \<and> length (split_unquoted [] ''BBC,\"One, Two\",uk'') = 3
   \<and> unquoted_commas False ''BBC,\"One, Two\",uk'' = 2
   \<and> odd (quotes ''BBC,\"One'')
   \<and> length (split_unquoted [] (''BBC,\"One'' @ '','' @ '' Two\",uk'')) =
       length (split_unquoted [] (''BBC,\"One'' @ '' Two\",uk''))
   \<and> check_columns (''id,name,country'' @ crlf @ ''BBC,\"One, Two\",uk'') = None
   \<and> length (split_char (CHR '','') [] ''id,name,country'') = 3
   \<and> quotes ''id,name,country'' = 0
   \<and> length (split_unquoted [] ''id,name,country'') = 3"
proof -
  have e: "even (quotes ''BBC,\"One, Two\",uk'')" by code_simp
  have c: "unquoted_commas False ''BBC,\"One, Two\",uk'' = 2" by code_simp
  have o: "even (quotes (''BBC,\"One'' @ '' Two\",uk'')) \<and> odd (quotes ''BBC,\"One'')" by code_simp
  have k: "check_columns (''id,name,country'' @ crlf @ ''BBC,\"One, Two\",uk'') = None" by code_simp
  have n: "count_list ''id,name,country'' (CHR '','') = 2" by code_simp
  note t = column_count_respects_quotes [where l = "''BBC,\"One, Two\",uk''" and u = "''BBC,\"One''"
      and v = "'' Two\",uk''" and h = "''id,name,country''"]
  from t e c have 1: "length (split_unquoted [] ''BBC,\"One, Two\",uk'') = 3" by simp
  from t o have 2: "length (split_unquoted [] (''BBC,\"One'' @ '','' @ '' Two\",uk'')) =
       length (split_unquoted [] (''BBC,\"One'' @ '' Two\",uk''))" by blast
  from t n have 3: "length (split_char (CHR '','') [] ''id,name,country'') = 3" by simp
  have q: "quotes ''id,name,country'' = 0" by code_simp
  from t q 3 have 4: "length (split_unquoted [] ''id,name,country'') = 3" by simp
  from e c o k q 1 2 3 4 show ?thesis by blast
qed

text \<open>
  Claim C8 on a file whose header has a quoted comma: the header and the row both have
  two columns by the quote-aware count, so the row's count equals the header's, yet the
  check fails at row 1, the header itself, because the header's expected count is taken
  from the split on every comma, which gives three pieces. The file is rejected and
  the run ends in Phase 1.
\<close>

theorem quoted_header_rejected:
  "content (quoted_header ''data/languages.csv'') = ''code,\"name, native\"'' @ crlf @ ''eng,English''
   \<and> even (quotes ''code,\"name, native\"'') \<and> even (quotes ''eng,English'')
   \<and> length (split_unquoted [] ''code,\"name, native\"'') = 2
   \<and> length (split_unquoted [] ''eng,English'') = 2
   \<and> length (split_char (CHR '','') [] ''code,\"name, native\"'') = 3
   \<and> check_columns (''code,\"name, native\"'' @ crlf @ ''eng,English'') = Some 0
   \<and> main no_schema [] quoted_header =
       \<lparr>reports = [], fatal = Some (WrongColumns 1 ''data/languages.csv'')\<rparr>"
  by code_simp

end
